theory Spec2Isabelle
  imports Complex_Main "HOL-Library.Product_Lexorder" "HOL-Library.Sublist"
begin

section \<open>Strings\<close>

text \<open>
  A Python \<open>str\<close> is a sequence of code points. The model is \<open>string\<close>, a list of
  \<open>char\<close>, where a \<open>char\<close> stands for the code point of the same number (0 to 255, the
  Latin-1 range); \<open>length\<close> therefore counts code points as Python's \<open>len\<close> does. The
  letters with diacritics in the literals of the source are single code points of that
  range (\<open>CHR 0xFA\<close> is the u with acute of the first headline prefix). Code points above 255
  are outside the model.
\<close>

type_synonym pystr = string

text \<open>\<open>not s\<close> for an optional string: \<open>None\<close> and the empty string are falsy.\<close>

fun falsy :: "pystr option \<Rightarrow> bool" where
  "falsy None = True"
| "falsy (Some s) = (s = [])"

text \<open>\<open>str.lower\<close> on the Latin-1 range: A to Z and the capital letters 0xC0 to 0xDE, the
  multiplication sign 0xD7 apart, move up by 32; every other code point stays.\<close>

definition lower_char :: "char \<Rightarrow> char" where
  "lower_char c =
     (let n = (of_char c :: nat)
      in if (65 \<le> n \<and> n \<le> 90) \<or> (192 \<le> n \<and> n \<le> 222 \<and> n \<noteq> 215)
         then char_of (n + 32) else c)"

definition lower :: "pystr \<Rightarrow> pystr" where
  "lower s = map lower_char s"

text \<open>\<open>s.startswith(p)\<close>.\<close>

definition startswith :: "pystr \<Rightarrow> pystr \<Rightarrow> bool" where
  "startswith s p = (take (length p) s = p)"

text \<open>\<open>sub in s\<close>: \<open>sub\<close> occurs in \<open>s\<close> as a contiguous substring.\<close>

fun py_in :: "pystr \<Rightarrow> pystr \<Rightarrow> bool" where
  "py_in sub [] = (sub = [])"
| "py_in sub (c # cs) = (startswith (c # cs) sub \<or> py_in sub cs)"

section \<open>Data model (models.py)\<close>

datatype error = OverflowError | ValueError | IndexError

record SearchRequest =
  req_query :: pystr
  depth :: pystr
  exclude_marketplaces :: bool
  min_days :: int
  min_active_ads :: int

text \<open>The field \<open>text\<close> of the source is \<open>ad_text\<close> here and the field
  \<open>is_probable_dropshipping\<close> is \<open>dropshipping_flag\<close>; a \<open>float\<close> is modelled by the real
  number it stands for.\<close>

record AdData =
  ad_id :: "pystr option"
  advertiser_name :: "pystr option"
  advertiser_url :: "pystr option"
  landing_url :: "pystr option"
  headline :: "pystr option"
  ad_text :: "pystr option"
  media_type :: pystr
  start_date :: "pystr option"
  days_active :: int
  active_status :: pystr
  variations_count :: int
  advertiser_active_ads_est :: int
  dropshipping_flag :: bool
  exclusion_reason :: "pystr option"
  score :: real
  ad_library_result_url :: "pystr option"

record AdOut =
  query :: pystr
  country :: pystr
  ad :: AdData

section \<open>URL classification (utils.py)\<close>

definition marketplaces :: "pystr list" where
  "marketplaces =
     [''mercadolivre.com'', ''mercadolibre.com'',
      ''amazon.com'', ''amazon.com.br'',
      ''shopee.com.br'',
      ''magazineluiza.com.br'', ''magalu.com.br'',
      ''americanas.com.br'',
      ''casasbahia.com.br'',
      ''submarino.com.br'',
      ''extra.com.br'',
      ''pontofrio.com.br'']"

definition is_marketplace :: "pystr option \<Rightarrow> bool" where
  "is_marketplace url =
     (if falsy url then False
      else (let url_lower = lower (the url)
            in list_ex (\<lambda>marketplace. py_in marketplace url_lower) marketplaces))"

definition dropshipping_patterns :: "pystr list" where
  "dropshipping_patterns =
     [''myshopify.com'',
      ''/products/'',
      ''yampi.com.br'',
      ''appmax.com.br'',
      ''cartpanda.com.br'',
      ''nuvemshop.com.br'',
      ''tray.com.br'',
      ''loja.com.br'',
      ''checkout'',
      ''comprar-agora'',
      ''add-to-cart'',
      ''produto-'']"

definition is_probable_dropshipping :: "pystr option \<Rightarrow> bool" where
  "is_probable_dropshipping url =
     (if falsy url then False
      else (let url_lower = lower (the url)
            in list_ex (\<lambda>pattern. py_in pattern url_lower) dropshipping_patterns))"

section \<open>Filtering (main.py)\<close>

text \<open>
  \<open>filter_results\<close> walks the list once. The source mutates \<open>ad.exclusion_reason\<close> of
  the record it keeps; the model returns the updated record in the output list. Every
  branch reads only fields that the loop never writes, so a record that occurs twice in
  the input is treated alike at both places and the list of values is what the caller
  sees.
\<close>

fun filter_results :: "AdOut list \<Rightarrow> SearchRequest \<Rightarrow> AdOut list" where
  "filter_results [] request = []"
| "filter_results (result # results) request =
     (if exclude_marketplaces request \<and> \<not> falsy (landing_url (ad result))
         \<and> is_marketplace (landing_url (ad result))
      then result\<lparr>ad := (ad result)\<lparr>exclusion_reason := Some ''Marketplace''\<rparr>\<rparr>
             # filter_results results request
      else if days_active (ad result) < min_days request
      then filter_results results request
      else if advertiser_active_ads_est (ad result) < min_active_ads request
      then filter_results results request
      else result # filter_results results request)"

text \<open>The rule of the specification for one record, with the last case as the code has
  it: the record is passed on as it came. \<open>None\<close> is a dropped record.\<close>

definition filter_rule :: "SearchRequest \<Rightarrow> AdOut \<Rightarrow> AdOut option" where
  "filter_rule request result =
     (if exclude_marketplaces request \<and> is_marketplace (landing_url (ad result))
      then Some (result\<lparr>ad := (ad result)\<lparr>exclusion_reason := Some ''Marketplace''\<rparr>\<rparr>)
      else if days_active (ad result) < min_days request then None
      else if advertiser_active_ads_est (ad result) < min_active_ads request then None
      else Some result)"

text \<open>Example records.\<close>

definition blank_ad :: AdData where
  "blank_ad =
     \<lparr>ad_id = None, advertiser_name = None, advertiser_url = None, landing_url = None,
      headline = None, ad_text = None, media_type = ''unknown'', start_date = None,
      days_active = 0, active_status = ''active'', variations_count = 1,
      advertiser_active_ads_est = 0, dropshipping_flag = False, exclusion_reason = None,
      score = 0, ad_library_result_url = None\<rparr>"

definition out_of :: "AdData \<Rightarrow> AdOut" where
  "out_of a = \<lparr>query = ''lamp'', country = ''BR'', ad = a\<rparr>"

definition request_of :: "bool \<Rightarrow> int \<Rightarrow> int \<Rightarrow> SearchRequest" where
  "request_of ex d n =
     \<lparr>req_query = ''lamp'', depth = ''standard'', exclude_marketplaces = ex,
      min_days = d, min_active_ads = n\<rparr>"

section \<open>Scoring (utils.py)\<close>

text \<open>
  A \<open>float\<close> is modelled by the real number it stands for, and the arithmetic on floats
  by the arithmetic on reals: the rounding error of the double operations is not part of
  the model. What is part of it is the one place where the conversion fails: \<open>float(n)\<close>
  raises \<open>OverflowError\<close> for an integer that rounds to 2 ^ 1024 or beyond, that is from
  2 ^ 1024 - 2 ^ 970 on.
\<close>

definition float_limit :: int where
  "float_limit = 2 ^ 1024 - 2 ^ 970"

definition py_float :: "int \<Rightarrow> error + real" where
  "py_float n = (if \<bar>n\<bar> < float_limit then Inr (of_int n) else Inl OverflowError)"

text \<open>\<open>x or d\<close> for an optional integer: \<open>None\<close> and 0 are falsy.\<close>

fun or_default :: "int option \<Rightarrow> int \<Rightarrow> int" where
  "or_default None d = d"
| "or_default (Some n) d = (if n = 0 then d else n)"

definition clamp :: "real \<Rightarrow> real \<Rightarrow> real \<Rightarrow> real" where
  "clamp value min_val max_val = max min_val (min value max_val)"

text \<open>\<open>math.tanh\<close> raises for no float, so the \<open>except\<close> branch of \<open>safe_tanh\<close> is never
  taken.\<close>

definition safe_tanh :: "real \<Rightarrow> real" where
  "safe_tanh x = tanh x"

text \<open>\<open>round(x, 2)\<close>: to the nearest hundredth, a tie going to the even one.\<close>

definition round_half_even :: "real \<Rightarrow> int" where
  "round_half_even y =
     (let f = \<lfloor>y\<rfloor>
      in if y - of_int f < 1 / 2 then f
         else if 1 / 2 < y - of_int f then f + 1
         else if even f then f else f + 1)"

definition py_round2 :: "real \<Rightarrow> real" where
  "py_round2 x = of_int (round_half_even (x * 100)) / 100"

text \<open>The formula on the converted values.\<close>

definition score_formula :: "real \<Rightarrow> real \<Rightarrow> real \<Rightarrow> real" where
  "score_formula fa fd fv =
     (let A = clamp fa 0 50;
          D = clamp fd 0 60;
          V = max 1 fv
      in 100 * (0.5 * (A / 50) + 0.3 * (D / 60) + 0.2 * safe_tanh (V / 5)))"

definition compute_score :: "int option \<Rightarrow> int option \<Rightarrow> int option \<Rightarrow> error + real" where
  "compute_score advertiser_active_ads_est' days_active' variations_count' =
     (case py_float (or_default advertiser_active_ads_est' 0) of
        Inl e \<Rightarrow> Inl e
      | Inr fa \<Rightarrow>
     (case py_float (or_default days_active' 0) of
        Inl e \<Rightarrow> Inl e
      | Inr fd \<Rightarrow>
     (case py_float (or_default variations_count' 1) of
        Inl e \<Rightarrow> Inl e
      | Inr fv \<Rightarrow> Inr (py_round2 (score_formula fa fd fv)))))"

section \<open>Text normalisation (utils.py)\<close>

text \<open>The whitespace of \<open>str.strip\<close> and of the pattern \<open>\s\<close> on the Latin-1 range: 0x09 to
  0x0D, 0x1C to 0x1F, the space, 0x85 and 0xA0.\<close>

definition is_space :: "char \<Rightarrow> bool" where
  "is_space c =
     (let n = (of_char c :: nat)
      in (9 \<le> n \<and> n \<le> 13) \<or> (28 \<le> n \<and> n \<le> 32) \<or> n = 133 \<or> n = 160)"

definition strip :: "pystr \<Rightarrow> pystr" where
  "strip s = rev (dropWhile is_space (rev (dropWhile is_space s)))"

text \<open>\<open>re.sub(r'\s+', ' ', s)\<close>: every maximal run of whitespace becomes one space.\<close>

function sub_spaces :: "pystr \<Rightarrow> pystr" where
  "sub_spaces [] = []"
| "sub_spaces (c # cs) =
     (if is_space c then CHR '' '' # sub_spaces (dropWhile is_space cs)
      else c # sub_spaces cs)"
  by pat_completeness auto
termination
  by (relation "measure length") (simp_all add: length_dropWhile_le less_Suc_eq_le)

text \<open>The class \<open>[\x00-\x1f\x7f-\x9f]\<close>.\<close>

definition is_control :: "char \<Rightarrow> bool" where
  "is_control c = (let n = (of_char c :: nat) in n \<le> 31 \<or> (127 \<le> n \<and> n \<le> 159))"

text \<open>\<open>re.sub(r'[\x00-\x1f\x7f-\x9f]', '', s)\<close>.\<close>

definition sub_control :: "pystr \<Rightarrow> pystr" where
  "sub_control s = filter (\<lambda>c. \<not> is_control c) s"

definition normalize_text :: "pystr option \<Rightarrow> pystr" where
  "normalize_text text =
     (if falsy text then []
      else sub_control (sub_spaces (strip (the text))))"

definition prefixes_to_remove :: "pystr list" where
  "prefixes_to_remove =
     [''An'' @ [CHR 0xFA] @ ''ncio'',
      ''Ad:'',
      ''Sponsored:'',
      ''Patrocinado:'']"

text \<open>One turn of the loop of \<open>clean_headline\<close>.\<close>

definition remove_prefix :: "pystr \<Rightarrow> pystr \<Rightarrow> pystr" where
  "remove_prefix headline' prefix' =
     (if startswith headline' prefix' then strip (drop (length prefix') headline')
      else headline')"

definition clean_headline :: "pystr option \<Rightarrow> pystr" where
  "clean_headline headline' =
     (if falsy headline' then []
      else normalize_text (Some (foldl remove_prefix (the headline') prefixes_to_remove)))"

text \<open>The reading of the specification: the first prefix of the list that the headline
  starts with is cut off, no other, and the remainder is normalised.\<close>

fun cut_first_prefix :: "pystr list \<Rightarrow> pystr \<Rightarrow> pystr" where
  "cut_first_prefix [] headline' = headline'"
| "cut_first_prefix (prefix' # prefixes') headline' =
     (if startswith headline' prefix' then drop (length prefix') headline'
      else cut_first_prefix prefixes' headline')"

definition clean_headline_spec :: "pystr option \<Rightarrow> pystr" where
  "clean_headline_spec headline' =
     (if falsy headline' then []
      else normalize_text (Some (cut_first_prefix prefixes_to_remove (the headline'))))"

text \<open>\<open>removed h ps\<close>: the prefixes \<open>ps\<close> cut off \<open>h\<close> one after another, each one a
  prefix of what the one before left, whitespace stripped after each cut.\<close>

fun removed :: "pystr \<Rightarrow> pystr list \<Rightarrow> pystr option" where
  "removed h [] = Some h"
| "removed h (p # ps) =
     (if startswith h p then removed (strip (drop (length p) h)) ps else None)"

text \<open>\<open>removal qs h\<close>: the amended rule in its own words. The prefixes \<open>qs\<close> are tried
  once each, in their order; one that the string, as the earlier removals left it, starts
  with is cut off and the whitespace around the rest is stripped; the others are passed
  over. The result is the list of the prefixes cut off and the remainder.\<close>

fun removal :: "pystr list \<Rightarrow> pystr \<Rightarrow> pystr list \<times> pystr" where
  "removal [] h = ([], h)"
| "removal (q # qs) h =
     (if startswith h q
      then (case removal qs (strip (drop (length q) h)) of (ps, r) \<Rightarrow> (q # ps, r))
      else removal qs h)"

section \<open>The result pipeline (main.py)\<close>

text \<open>One turn of the loop of \<open>enhance_results\<close>: the score is computed afresh from the
  three counters of the record, and the dropshipping flag is derived from the landing URL
  where it is still false and the URL is present. An exception of \<open>compute_score\<close> leaves
  the loop.\<close>

definition enhance_one :: "AdOut \<Rightarrow> error + AdOut" where
  "enhance_one result =
     (case compute_score (Some (advertiser_active_ads_est (ad result)))
             (Some (days_active (ad result))) (Some (variations_count (ad result))) of
        Inl e \<Rightarrow> Inl e
      | Inr s \<Rightarrow>
          Inr (result\<lparr>ad := (ad result)
                 \<lparr>score := s,
                  dropshipping_flag :=
                    (if \<not> dropshipping_flag (ad result) \<and> \<not> falsy (landing_url (ad result))
                     then is_probable_dropshipping (landing_url (ad result))
                     else dropshipping_flag (ad result))\<rparr>\<rparr>))"

fun enhance_results :: "AdOut list \<Rightarrow> error + AdOut list" where
  "enhance_results [] = Inr []"
| "enhance_results (result # results) =
     (case enhance_one result of
        Inl e \<Rightarrow> Inl e
      | Inr r \<Rightarrow>
          (case enhance_results results of
             Inl e \<Rightarrow> Inl e
           | Inr rs \<Rightarrow> Inr (r # rs)))"

text \<open>The sort key \<open>lambda x: (-x.ad.score, -x.ad.days_active)\<close>; Python compares the
  tuples lexicographically, as the order on pairs does here.\<close>

definition sort_key_of :: "AdOut \<Rightarrow> real \<times> int" where
  "sort_key_of x = (- score (ad x), - days_active (ad x))"

text \<open>\<open>list.sort(key=...)\<close> is a stable sort. The result of a stable sort is determined by
  the list and the key, so the stable insertion sort \<open>sort_key\<close> of the library returns the
  list that Python's sort returns.\<close>

definition sort_results :: "AdOut list \<Rightarrow> AdOut list" where
  "sort_results results = sort_key sort_key_of results"

text \<open>The part of \<open>search_ads\<close> that follows the acquisition: an empty list is returned as
  it is, any other is enhanced, filtered and sorted.\<close>

definition search_ads :: "SearchRequest \<Rightarrow> AdOut list \<Rightarrow> error + AdOut list" where
  "search_ads request results =
     (if results = [] then Inr []
      else (case enhance_results results of
              Inl e \<Rightarrow> Inl e
            | Inr enhanced_results \<Rightarrow>
                Inr (sort_results (filter_results enhanced_results request))))"

text \<open>\<open>ranked_before x y\<close>: \<open>x\<close> may stand before \<open>y\<close> in the ranking: its score is higher,
  or the scores are equal and it has been active at least as long.\<close>

definition ranked_before :: "AdOut \<Rightarrow> AdOut \<Rightarrow> bool" where
  "ranked_before x y =
     (score (ad y) < score (ad x)
      \<or> (score (ad x) = score (ad y) \<and> days_active (ad y) \<le> days_active (ad x)))"

text \<open>Two records for the examples: a marketplace listing and an independent shop.\<close>

definition record_x :: AdOut where
  "record_x = out_of (blank_ad\<lparr>landing_url := Some ''https://www.mercadolivre.com.br/x'',
     days_active := 5, advertiser_active_ads_est := 10\<rparr>)"

definition record_y :: AdOut where
  "record_y = out_of (blank_ad\<lparr>landing_url := Some ''https://mystore.com/products/1'',
     days_active := 50, variations_count := 3, advertiser_active_ads_est := 40\<rparr>)"

text \<open>\<open>convertible x\<close>: the three counters of the record are integers that \<open>float\<close>
  converts, so \<open>compute_score\<close> returns on them.\<close>

definition convertible :: "AdOut \<Rightarrow> bool" where
  "convertible x =
     (\<bar>advertiser_active_ads_est (ad x)\<bar> < float_limit
      \<and> \<bar>days_active (ad x)\<bar> < float_limit
      \<and> \<bar>variations_count (ad x)\<bar> < float_limit)"

section \<open>Regular expressions and integer parsing (the \<open>re\<close> module and \<open>int\<close>)\<close>

text \<open>
  The patterns of the source use literals, character classes, greedy repetition of a
  single character class, sequence, alternation and capturing groups that are not nested
  in an alternative or a repetition. \<open>rx\<close> is that fragment.
\<close>

datatype rx =
    Lit pystr
  | Cls "char \<Rightarrow> bool"
  | Rep "char \<Rightarrow> bool" nat "nat option"
  | Seq rx rx
  | Alt rx rx
  | Grp rx

text \<open>
  \<open>rx_match r s\<close> lists every way in which \<open>r\<close> matches a prefix of \<open>s\<close>, in the order in
  which a backtracking matcher tries them: the first alternative before the second, the
  longer repetition before the shorter, and for a sequence every continuation of an earlier
  match of its head before any of a later one. An entry is the list of captured groups, in
  the order of their opening parentheses, and the input left over. The head of the list is
  the match that \<open>re\<close> reports.
\<close>

fun rx_match :: "rx \<Rightarrow> pystr \<Rightarrow> (pystr list \<times> pystr) list" where
  "rx_match (Lit l) s = (if startswith s l then [([], drop (length l) s)] else [])"
| "rx_match (Cls P) s = (case s of [] \<Rightarrow> [] | c # cs \<Rightarrow> if P c then [([], cs)] else [])"
| "rx_match (Rep P lo hi) s =
     (let k = length (takeWhile P s);
          k' = (case hi of None \<Rightarrow> k | Some h \<Rightarrow> min h k)
      in map (\<lambda>i. ([], drop i s)) (rev [lo ..< Suc k']))"
| "rx_match (Seq r1 r2) s =
     concat (map (\<lambda>(c1, s1). map (\<lambda>(c2, s2). (c1 @ c2, s2)) (rx_match r2 s1))
       (rx_match r1 s))"
| "rx_match (Alt r1 r2) s = rx_match r1 s @ rx_match r2 s"
| "rx_match (Grp r) s =
     map (\<lambda>(c, s'). (take (length s - length s') s # c, s')) (rx_match r s)"

text \<open>\<open>re.search\<close>: the match at the leftmost position that has one; the result is the
  list of its groups.\<close>

fun rx_search :: "rx \<Rightarrow> pystr \<Rightarrow> pystr list option" where
  "rx_search r [] = (case rx_match r [] of [] \<Rightarrow> None | (c, s') # ms \<Rightarrow> Some c)"
| "rx_search r (x # xs) =
     (case rx_match r (x # xs) of [] \<Rightarrow> rx_search r xs | (c, s') # ms \<Rightarrow> Some c)"

text \<open>The classes \<open>\d\<close> and \<open>\w\<close> on the Latin-1 range: \<open>\d\<close> is 0 to 9; \<open>\w\<close> is the
  alphanumeric code points and the underscore.\<close>

definition is_digit :: "char \<Rightarrow> bool" where
  "is_digit c = (let n = (of_char c :: nat) in 48 \<le> n \<and> n \<le> 57)"

definition is_word :: "char \<Rightarrow> bool" where
  "is_word c =
     (let n = (of_char c :: nat)
      in (48 \<le> n \<and> n \<le> 57) \<or> (65 \<le> n \<and> n \<le> 90) \<or> n = 95 \<or> (97 \<le> n \<and> n \<le> 122)
         \<or> n = 170 \<or> n = 178 \<or> n = 179 \<or> n = 181 \<or> n = 185 \<or> n = 186
         \<or> (188 \<le> n \<and> n \<le> 190) \<or> (192 \<le> n \<and> n \<le> 214) \<or> (216 \<le> n \<and> n \<le> 246)
         \<or> 248 \<le> n)"

text \<open>The value of a string of decimal digits.\<close>

definition digits_value :: "pystr \<Rightarrow> int" where
  "digits_value ds = foldl (\<lambda>acc c. 10 * acc + (int (of_char c) - 48)) 0 ds"

text \<open>
  \<open>int(s)\<close> in base 10. The whitespace that \<open>int\<close> strips is 0x09 to 0x0D, the space, 0x85
  and 0xA0; a sign may lead; single underscores may stand between digits. Since CPython
  3.11 a string of more than 4300 digits is refused (the default of
  \<open>sys.set_int_max_str_digits\<close>). Every refusal is a \<open>ValueError\<close>.
\<close>

definition is_int_space :: "char \<Rightarrow> bool" where
  "is_int_space c =
     (let n = (of_char c :: nat) in (9 \<le> n \<and> n \<le> 13) \<or> n = 32 \<or> n = 133 \<or> n = 160)"

definition int_max_str_digits :: nat where
  "int_max_str_digits = 4300"

fun digits_underscores :: "pystr \<Rightarrow> bool" where
  "digits_underscores [] = False"
| "digits_underscores [c] = is_digit c"
| "digits_underscores (c # d # cs) =
     (is_digit c \<and> (if d = CHR ''_'' then digits_underscores cs else digits_underscores (d # cs)))"

definition py_int :: "pystr \<Rightarrow> error + int" where
  "py_int s =
     (let t = rev (dropWhile is_int_space (rev (dropWhile is_int_space s)));
          negative = (t \<noteq> [] \<and> hd t = CHR ''-'');
          body = (if t \<noteq> [] \<and> (hd t = CHR ''-'' \<or> hd t = CHR ''+'') then tl t else t);
          ds = filter is_digit body
      in if \<not> digits_underscores body then Inl ValueError
         else if int_max_str_digits < length ds then Inl ValueError
         else Inr (if negative then - digits_value ds else digits_value ds))"

text \<open>\<open>match.group(1)\<close>; a group that the pattern does not have is an \<open>IndexError\<close>.\<close>

definition group1 :: "pystr list \<Rightarrow> error + pystr" where
  "group1 caps = (case caps of [] \<Rightarrow> Inl IndexError | g # gs \<Rightarrow> Inr g)"

section \<open>Dates (the \<open>datetime\<close> module and utils.py)\<close>

datatype date = Date (year: int) (month: int) (day: int)

text \<open>The proleptic Gregorian calendar of \<open>datetime.date\<close>: the constructor refuses a
  year outside 1 to 9999, a month outside 1 to 12 and a day that the month does not have;
  \<open>toordinal\<close> counts the days from 0001-01-01, which is day 1.\<close>

definition is_leap :: "int \<Rightarrow> bool" where
  "is_leap y = (y mod 4 = 0 \<and> (y mod 100 \<noteq> 0 \<or> y mod 400 = 0))"

definition days_in_month :: "int \<Rightarrow> int \<Rightarrow> int" where
  "days_in_month y m =
     (if m = 2 \<and> is_leap y then 29
      else [31, 28, 31, 30, 31, 30, 31, 31, 30, 31, 30, 31] ! nat (m - 1))"

definition days_before_year :: "int \<Rightarrow> int" where
  "days_before_year y = (y - 1) * 365 + (y - 1) div 4 - (y - 1) div 100 + (y - 1) div 400"

definition days_before_month :: "int \<Rightarrow> int \<Rightarrow> int" where
  "days_before_month y m = sum_list (map (days_in_month y) [1 .. m - 1])"

definition toordinal :: "date \<Rightarrow> int" where
  "toordinal d = days_before_year (year d) + days_before_month (year d) (month d) + day d"

definition valid_date :: "date \<Rightarrow> bool" where
  "valid_date d =
     (1 \<le> year d \<and> year d \<le> 9999 \<and> 1 \<le> month d \<and> month d \<le> 12
      \<and> 1 \<le> day d \<and> day d \<le> days_in_month (year d) (month d))"

definition make_date :: "int \<Rightarrow> int \<Rightarrow> int \<Rightarrow> error + date" where
  "make_date y m d = (if valid_date (Date y m d) then Inr (Date y m d) else Inl ValueError)"

text \<open>
  \<open>datetime.strptime(s, '%Y-%m-%d')\<close>. CPython turns the format into the pattern
  \<open>(\d\d\d\d)-(1[0-2]|0[1-9]|[1-9])-(3[0-1]|[1-2]\d|0[1-9]|[1-9]| [1-9])\<close>, matches it at the
  start of the string, refuses a string that the match does not use up, converts the three
  groups with \<open>int\<close> and builds the date. So a month or a day of one digit is accepted
  as well. Every refusal is a \<open>ValueError\<close>.
\<close>

definition char_in :: "nat \<Rightarrow> nat \<Rightarrow> char \<Rightarrow> bool" where
  "char_in lo hi c = (lo \<le> of_char c \<and> (of_char c :: nat) \<le> hi)"

definition year_group :: rx where
  "year_group =
     Grp (Seq (Cls is_digit) (Seq (Cls is_digit) (Seq (Cls is_digit) (Cls is_digit))))"

definition month_group :: rx where
  "month_group =
     Grp (Alt (Seq (Lit ''1'') (Cls (char_in 48 50)))
         (Alt (Seq (Lit ''0'') (Cls (char_in 49 57)))
              (Cls (char_in 49 57))))"

definition day_group :: rx where
  "day_group =
     Grp (Alt (Seq (Lit ''3'') (Cls (char_in 48 49)))
         (Alt (Seq (Cls (char_in 49 50)) (Cls is_digit))
         (Alt (Seq (Lit ''0'') (Cls (char_in 49 57)))
         (Alt (Cls (char_in 49 57))
              (Seq (Lit '' '') (Cls (char_in 49 57)))))))"

definition month_day_format :: rx where
  "month_day_format = Seq (Lit ''-'') (Seq month_group (Seq (Lit ''-'') day_group))"

definition ymd_format :: rx where
  "ymd_format = Seq year_group month_day_format"

definition strptime_ymd :: "pystr \<Rightarrow> error + date" where
  "strptime_ymd s =
     (case rx_match ymd_format s of
        [] \<Rightarrow> Inl ValueError
      | (groups, rest) # ms \<Rightarrow>
          if rest \<noteq> [] then Inl ValueError
          else (case groups of
                  [gy, gm, gd] \<Rightarrow>
                    (case (py_int gy, py_int gm, py_int gd) of
                       (Inr y, Inr m, Inr d) \<Rightarrow> make_date y m d
                     | _ \<Rightarrow> Inl ValueError)
                | _ \<Rightarrow> Inl ValueError))"

text \<open>\<open>days_between\<close>. \<open>clock\<close> is the date that \<open>date.today()\<close> returns, read only when
  no reference date is passed.\<close>

definition days_between :: "date \<Rightarrow> pystr option \<Rightarrow> date option \<Rightarrow> int" where
  "days_between clock date_str today =
     (if falsy date_str then 0
      else (let today' = (case today of None \<Rightarrow> clock | Some t \<Rightarrow> t)
            in case strptime_ymd (the date_str) of
                 Inl e \<Rightarrow> 0
               | Inr start_date' \<Rightarrow> max 0 (toordinal today' - toordinal start_date')))"

section \<open>Variation estimate (utils.py)\<close>

text \<open>The four patterns, in the order of the source. \<open>CHR 0xF5\<close>, \<open>CHR 0xE7\<close> and
  \<open>CHR 0xED\<close> are the o with tilde, the c with cedilla and the i with acute.\<close>

definition variation_indicators :: "rx list" where
  "variation_indicators =
     [Seq (Grp (Rep is_digit 1 None))
        (Seq (Rep is_space 0 None)
             (Grp (Alt (Lit (''vers'' @ [CHR 0xF5] @ ''es''))
                  (Alt (Lit (''varia'' @ [CHR 0xE7, CHR 0xF5] @ ''es''))
                       (Lit (''op'' @ [CHR 0xE7, CHR 0xF5] @ ''es'')))))),
      Seq (Lit (''dispon'' @ [CHR 0xED] @ ''vel''))
        (Seq (Rep is_space 1 None)
        (Seq (Lit ''em'')
        (Seq (Rep is_space 1 None)
             (Grp (Rep is_digit 1 None))))),
      Seq (Grp (Rep is_digit 1 None)) (Seq (Rep is_space 0 None) (Lit ''cores'')),
      Seq (Grp (Rep is_digit 1 None)) (Seq (Rep is_space 0 None) (Lit ''tamanhos''))]"

text \<open>The loop over the patterns: the first pattern that matches and whose first group
  \<open>int\<close> converts gives the result; an exception in the \<open>try\<close> block moves on to the next
  pattern; 1 is returned when the patterns are used up.\<close>

fun try_indicators :: "rx list \<Rightarrow> pystr \<Rightarrow> int" where
  "try_indicators [] s = 1"
| "try_indicators (pattern # patterns) s =
     (case rx_search pattern s of
        None \<Rightarrow> try_indicators patterns s
      | Some caps \<Rightarrow>
          (case group1 caps of
             Inl e \<Rightarrow> try_indicators patterns s
           | Inr g \<Rightarrow>
               (case py_int g of
                  Inl e \<Rightarrow> try_indicators patterns s
                | Inr count \<Rightarrow> min count 20)))"

definition estimate_variations_from_text :: "pystr option \<Rightarrow> int" where
  "estimate_variations_from_text text' =
     (if falsy text' then 1
      else try_indicators variation_indicators (lower (the text')))"

text \<open>\<open>indicator_value p s\<close>: the number that pattern \<open>p\<close> yields on \<open>s\<close>: it has to match
  and \<open>int\<close> has to convert its first group.\<close>

definition indicator_value :: "rx \<Rightarrow> pystr \<Rightarrow> int option" where
  "indicator_value p s =
     (case rx_search p s of
        None \<Rightarrow> None
      | Some caps \<Rightarrow>
          (case group1 caps of
             Inl e \<Rightarrow> None
           | Inr g \<Rightarrow> (case py_int g of Inl e \<Rightarrow> None | Inr n \<Rightarrow> Some n)))"

section \<open>Date parsing (utils.py)\<close>

text \<open>\<open>s.zfill(width)\<close>: zeros are put in front, after a leading sign, up to the width.\<close>

definition zfill :: "nat \<Rightarrow> pystr \<Rightarrow> pystr" where
  "zfill width s =
     (if width \<le> length s then s
      else if s \<noteq> [] \<and> (hd s = CHR ''+'' \<or> hd s = CHR ''-'')
      then hd s # replicate (width - length s) CHR ''0'' @ tl s
      else replicate (width - length s) CHR ''0'' @ s)"

text \<open>The decimal digits of a number, and \<open>strftime('%Y-%m-%d')\<close> as the C library of
  Linux renders it: month and day with two digits, the year with as many digits as it
  has (four from the year 1000 on).\<close>

fun digits_of :: "nat \<Rightarrow> pystr" where
  "digits_of n =
     (if n < 10 then [char_of (48 + n)]
      else digits_of (n div 10) @ [char_of (48 + n mod 10)])"

declare digits_of.simps [simp del]

definition strftime_ymd :: "date \<Rightarrow> pystr" where
  "strftime_ymd d =
     digits_of (nat (year d)) @ ''-'' @ zfill 2 (digits_of (nat (month d)))
       @ ''-'' @ zfill 2 (digits_of (nat (day d)))"

text \<open>The canonical string of a date: the year with four digits, zeros in front where it
  has fewer.\<close>

definition canonical_ymd :: "date \<Rightarrow> pystr" where
  "canonical_ymd d =
     zfill 4 (digits_of (nat (year d))) @ ''-'' @ zfill 2 (digits_of (nat (month d)))
       @ ''-'' @ zfill 2 (digits_of (nat (day d)))"

text \<open>The five fallback patterns, in the order of the source.\<close>

definition pattern_dd_mm_yyyy :: rx where
  "pattern_dd_mm_yyyy =
     Seq (Grp (Rep is_digit 1 (Some 2))) (Seq (Lit ''/'')
    (Seq (Grp (Rep is_digit 1 (Some 2))) (Seq (Lit ''/'')
         (Grp (Rep is_digit 4 (Some 4))))))"

definition pattern_yyyy_mm_dd :: rx where
  "pattern_yyyy_mm_dd =
     Seq (Grp (Rep is_digit 4 (Some 4))) (Seq (Lit ''-'')
    (Seq (Grp (Rep is_digit 1 (Some 2))) (Seq (Lit ''-'')
         (Grp (Rep is_digit 1 (Some 2))))))"

definition pattern_dd_de_mes_de_yyyy :: rx where
  "pattern_dd_de_mes_de_yyyy =
     Seq (Grp (Rep is_digit 1 (Some 2))) (Seq (Rep is_space 1 None) (Seq (Lit ''de'')
    (Seq (Rep is_space 1 None) (Seq (Grp (Rep is_word 1 None))
    (Seq (Rep is_space 1 None) (Seq (Lit ''de'') (Seq (Rep is_space 1 None)
         (Grp (Rep is_digit 4 (Some 4))))))))))"

definition pattern_month_dd_yyyy :: rx where
  "pattern_month_dd_yyyy =
     Seq (Grp (Rep is_word 1 None)) (Seq (Rep is_space 1 None)
    (Seq (Grp (Rep is_digit 1 (Some 2))) (Seq (Rep (\<lambda>c. c = CHR '','') 0 (Some 1))
    (Seq (Rep is_space 1 None)
         (Grp (Rep is_digit 4 (Some 4)))))))"

definition pattern_dd_month_yyyy :: rx where
  "pattern_dd_month_yyyy =
     Seq (Grp (Rep is_digit 1 (Some 2))) (Seq (Rep is_space 1 None)
    (Seq (Grp (Rep is_word 1 None)) (Seq (Rep is_space 1 None)
         (Grp (Rep is_digit 4 (Some 4))))))"

definition date_patterns :: "rx list" where
  "date_patterns =
     [pattern_dd_mm_yyyy, pattern_yyyy_mm_dd, pattern_dd_de_mes_de_yyyy,
      pattern_month_dd_yyyy, pattern_dd_month_yyyy]"

text \<open>The table of the Portuguese month names; \<open>CHR 0xE7\<close> is the c with cedilla.\<close>

definition meses_pt :: "(pystr \<times> pystr) list" where
  "meses_pt =
     [(''janeiro'', ''01''), (''jan'', ''01''),
      (''fevereiro'', ''02''), (''fev'', ''02''),
      (''mar'' @ [CHR 0xE7] @ ''o'', ''03''), (''mar'', ''03''),
      (''abril'', ''04''), (''abr'', ''04''),
      (''maio'', ''05''), (''mai'', ''05''),
      (''junho'', ''06''), (''jun'', ''06''),
      (''julho'', ''07''), (''jul'', ''07''),
      (''agosto'', ''08''), (''ago'', ''08''),
      (''setembro'', ''09''), (''set'', ''09''),
      (''outubro'', ''10''), (''out'', ''10''),
      (''novembro'', ''11''), (''nov'', ''11''),
      (''dezembro'', ''12''), (''dez'', ''12'')]"

text \<open>\<open>meses_pt.get(month_name.lower(), '01')\<close>.\<close>

definition month_number :: "pystr \<Rightarrow> pystr" where
  "month_number month_name =
     (case map_of meses_pt (lower month_name) of None \<Rightarrow> ''01'' | Some m \<Rightarrow> m)"

text \<open>The formatted string \<open>f"{year}-{month.zfill(2)}-{day.zfill(2)}"\<close>.\<close>

definition ymd_string :: "pystr \<Rightarrow> pystr \<Rightarrow> pystr \<Rightarrow> pystr" where
  "ymd_string year' month' day' = year' @ ''-'' @ zfill 2 month' @ ''-'' @ zfill 2 day'"

text \<open>
  The loop over the fallback patterns. The source tells the patterns apart by comparing
  the pattern with the entries of the list; the five are different strings, so the model
  carries the index along. The first pattern that matches decides: each of the five has
  three groups, and every branch for three groups returns.
\<close>

fun fallback :: "(nat \<times> rx) list \<Rightarrow> pystr \<Rightarrow> pystr option" where
  "fallback [] s = None"
| "fallback ((i, pattern) # patterns) s =
     (case rx_search pattern s of
        None \<Rightarrow> fallback patterns s
      | Some groups \<Rightarrow>
          (case groups of
             [a, b, c] \<Rightarrow>
               if i = 2 then Some (ymd_string c (month_number b) a)
               else if i = 3 then Some (ymd_string c (month_number a) b)
               else if i = 4 then Some (ymd_string c (month_number b) a)
               else if i = 0 then Some (ymd_string c b a)
               else if i = 1 then Some (ymd_string a b c)
               else fallback patterns s
           | _ \<Rightarrow> fallback patterns s))"

text \<open>
  \<open>parse_date_any\<close>. The fuzzy parser of \<open>dateutil\<close> is not part of the repository: it is
  the parameter \<open>fuzzy\<close>, which gives the date found in a text, or \<open>None\<close> where
  \<open>dateutil\<close> raises. Nothing in the fallback raises, and the source catches every
  exception besides; the result is a string or \<open>None\<close>.
\<close>

definition parse_date_any :: "(pystr \<Rightarrow> date option) \<Rightarrow> pystr option \<Rightarrow> pystr option" where
  "parse_date_any fuzzy date_text =
     (if falsy date_text then None
      else (let date_text' = strip (the date_text)
            in case fuzzy date_text' of
                 Some parsed \<Rightarrow> Some (strftime_ymd parsed)
               | None \<Rightarrow> fallback (enumerate 0 date_patterns) (lower date_text')))"



text \<open>A fuzzy parser for the examples: it finds the date in a text that is nothing but a
  date in the form of \<open>strptime_ymd\<close>, from the year 1000 on, and no date elsewhere.\<close>

definition iso_fuzzy :: "pystr \<Rightarrow> date option" where
  "iso_fuzzy t =
     (case strptime_ymd t of
        Inl e \<Rightarrow> None
      | Inr d \<Rightarrow> if 1000 \<le> year d then Some d else None)"

section \<open>Properties of the filter\<close>

lemma is_marketplace_falsy: "falsy url \<Longrightarrow> \<not> is_marketplace url"
  by (simp add: is_marketplace_def)

lemma is_marketplace_truthy: "(\<not> falsy url \<and> is_marketplace url) = is_marketplace url"
  using is_marketplace_falsy by blast

text \<open>
  C1, as stated, promises \<open>exclusion_reason\<close> unset on every record kept by the last
  rule. The code never clears the field: a record that arrives with a reason (the output
  of an earlier run, say) and is kept by the last rule leaves with that reason.
\<close>

theorem filter_results_keeps_reason:
  "filter_results [out_of (blank_ad\<lparr>exclusion_reason := Some ''Marketplace''\<rparr>)]
       (request_of False 0 0)
     = [out_of (blank_ad\<lparr>exclusion_reason := Some ''Marketplace''\<rparr>)]
   \<and> exclusion_reason (ad (hd (filter_results
        [out_of (blank_ad\<lparr>exclusion_reason := Some ''Marketplace''\<rparr>)]
        (request_of False 0 0)))) \<noteq> None"
  by (simp add: out_of_def blank_ad_def request_of_def)

text \<open>
  C1, amended: the filter treats each record by the first matching rule of
  \<open>filter_rule\<close> and keeps the order of the survivors: a marketplace record under
  \<open>exclude_marketplaces\<close> is kept with \<open>exclusion_reason = "Marketplace"\<close> whatever its
  counters; otherwise it is dropped when \<open>days_active < min_days\<close>, otherwise dropped when
  \<open>advertiser_active_ads_est < min_active_ads\<close>, otherwise kept unchanged (its
  \<open>exclusion_reason\<close> is the one it came with, unset if it was unset).
\<close>

theorem filter_results_first_matching_rule:
  "filter_results results request = List.map_filter (filter_rule request) results"
  by (induction results) (simp_all add: filter_rule_def is_marketplace_truthy)

section \<open>Properties of the score\<close>

lemma round_half_even_of_int: "round_half_even (of_int n) = n"
  by (simp add: round_half_even_def)

lemma round_half_even_bounds: "\<lfloor>y\<rfloor> \<le> round_half_even y \<and> round_half_even y \<le> \<lfloor>y\<rfloor> + 1"
  by (simp add: round_half_even_def Let_def)

lemma round_half_even_mono:
  assumes "x \<le> y"
  shows "round_half_even x \<le> round_half_even y"
proof (cases "\<lfloor>x\<rfloor> = \<lfloor>y\<rfloor>")
  case True
  then show ?thesis using assms by (simp add: round_half_even_def Let_def)
next
  case False
  have "\<lfloor>x\<rfloor> \<le> \<lfloor>y\<rfloor>" using assms by (rule floor_mono)
  with False have "\<lfloor>x\<rfloor> + 1 \<le> \<lfloor>y\<rfloor>" by simp
  then show ?thesis
    using round_half_even_bounds [of x] round_half_even_bounds [of y] by linarith
qed

lemma py_round2_mono: "x \<le> y \<Longrightarrow> py_round2 x \<le> py_round2 y"
  using round_half_even_mono [of "x * 100" "y * 100"]
  by (simp add: py_round2_def divide_right_mono)

lemma py_round2_zero: "py_round2 0 = 0"
  using round_half_even_of_int [of 0] by (simp add: py_round2_def)

lemma py_round2_hundred: "py_round2 100 = 100"
  using round_half_even_of_int [of 10000] by (simp add: py_round2_def)

lemma linear_mono:
  fixes A D T :: real
  assumes "A \<le> A'" "D \<le> D'" "T \<le> T'"
  shows "100 * (0.5 * (A / 50) + 0.3 * (D / 60) + 0.2 * T)
           \<le> 100 * (0.5 * (A' / 50) + 0.3 * (D' / 60) + 0.2 * T')"
  using assms by simp

lemma linear_range:
  fixes A D T :: real
  assumes "0 \<le> A" "A \<le> 50" "0 \<le> D" "D \<le> 60" "0 \<le> T" "T \<le> 1"
  shows "0 \<le> 100 * (0.5 * (A / 50) + 0.3 * (D / 60) + 0.2 * T)
         \<and> 100 * (0.5 * (A / 50) + 0.3 * (D / 60) + 0.2 * T) \<le> 100"
  using assms by simp

lemma score_formula_mono:
  assumes "fa \<le> fa'" "fd \<le> fd'" "fv \<le> fv'"
  shows "score_formula fa fd fv \<le> score_formula fa' fd' fv'"
proof -
  have "clamp fa 0 50 \<le> clamp fa' 0 50" "clamp fd 0 60 \<le> clamp fd' 0 60"
    using assms by (simp_all add: clamp_def)
  moreover have "tanh (max 1 fv / 5) \<le> tanh (max 1 fv' / 5)"
    using assms by simp
  ultimately show ?thesis
    unfolding score_formula_def safe_tanh_def Let_def by (rule linear_mono)
qed

lemma score_formula_range: "0 \<le> score_formula fa fd fv \<and> score_formula fa fd fv \<le> 100"
proof -
  have a: "0 \<le> clamp fa 0 50" "clamp fa 0 50 \<le> 50" by (simp_all add: clamp_def)
  have d: "0 \<le> clamp fd 0 60" "clamp fd 0 60 \<le> 60" by (simp_all add: clamp_def)
  have t: "0 \<le> tanh (max 1 fv / 5)" by simp
  have t1: "tanh (max 1 fv / 5) \<le> 1" using tanh_real_lt_1 [of "max 1 fv / 5"] by simp
  show ?thesis
    unfolding score_formula_def safe_tanh_def Let_def using a d t t1 by (rule linear_range)
qed

lemma exp_minus_two_fifths:
  "670314 / 1000000 < exp (- (2 / 5) :: real) \<and> exp (- (2 / 5) :: real) < 670340 / 1000000"
proof -
  obtain t :: real where t: "\<bar>t\<bar> \<le> \<bar>- (2 / 5)\<bar>"
    and e: "exp (- (2 / 5)) = (\<Sum>m<6. (- (2 / 5)) ^ m / fact m) + (exp t / fact 6) * (- (2 / 5)) ^ 6"
    using Maclaurin_exp_le [of "- (2 / 5)" 6] by blast
  have "t \<le> 1" using t by simp
  then have "exp t \<le> exp 1" by simp
  then have t3: "exp t \<le> 3" using exp_le by linarith
  have t0: "0 < exp t" by simp
  have s: "(\<Sum>m<6. (- (2 / 5 :: real)) ^ m / fact m) = 1 - 2/5 + 4/50 - 8/750 + 16/15000 - 32/375000"
    by (simp add: eval_nat_numeral fact_numeral)
  have f: "(exp t / fact 6) * (- (2 / 5)) ^ 6 = exp t * (64 / 11250000)"
    by (simp add: eval_nat_numeral fact_numeral)
  have "exp (- (2 / 5) :: real) = 1 - 2/5 + 4/50 - 8/750 + 16/15000 - 32/375000
          + exp t * (64 / 11250000)"
    using e s f by simp
  then show ?thesis using t3 t0 by linarith
qed

lemma tanh_one_fifth:
  "19725 / 100000 < tanh (1 / 5 :: real) \<and> tanh (1 / 5 :: real) < 19775 / 100000"
proof -
  define E :: real where "E = exp (- (2 / 5))"
  have E: "670314 / 1000000 < E" "E < 670340 / 1000000"
    using exp_minus_two_fifths by (simp_all add: E_def)
  have th: "tanh (1 / 5 :: real) = (1 - E) / (1 + E)"
    by (simp add: tanh_real_altdef E_def)
  have pos: "0 < 1 + E" using E by simp
  show ?thesis unfolding th using E pos
    by (simp add: pos_less_divide_eq pos_divide_less_eq)
qed

lemma round_half_even_above: "of_int n + 1 / 2 < y \<Longrightarrow> n + 1 \<le> round_half_even y"
proof -
  assume a: "of_int n + 1 / 2 < y"
  then have "of_int n \<le> y" by linarith
  then have f: "n \<le> \<lfloor>y\<rfloor>" by (simp add: le_floor_iff)
  show ?thesis
  proof (cases "\<lfloor>y\<rfloor> = n")
    case True
    then show ?thesis using a by (simp add: round_half_even_def Let_def)
  next
    case False
    then show ?thesis using f round_half_even_bounds [of y] by linarith
  qed
qed

lemma round_half_even_below: "y < of_int n + 1 / 2 \<Longrightarrow> round_half_even y \<le> n"
proof -
  assume a: "y < of_int n + 1 / 2"
  then have "y < of_int (n + 1)" by simp
  then have f: "\<lfloor>y\<rfloor> < n + 1" by (simp only: floor_less_iff)
  show ?thesis
  proof (cases "\<lfloor>y\<rfloor> = n")
    case True
    then show ?thesis using a by (simp add: round_half_even_def Let_def)
  next
    case False
    then show ?thesis using f round_half_even_bounds [of y] by linarith
  qed
qed

lemma py_round2_ge_395: "3945 / 1000 < x \<Longrightarrow> 395 / 100 \<le> py_round2 x"
  using round_half_even_above [of 394 "x * 100"] by (simp add: py_round2_def)

lemma py_round2_le_395: "x < 3955 / 1000 \<Longrightarrow> py_round2 x \<le> 395 / 100"
  using round_half_even_below [of "x * 100" 395] by (simp add: py_round2_def)

lemma score_formula_floor: "20 * tanh (1 / 5) \<le> score_formula fa fd fv"
proof -
  have "100 * (0.5 * (0 / 50) + 0.3 * (0 / 60) + 0.2 * tanh (1 / 5 :: real))
          \<le> score_formula fa fd fv"
    unfolding score_formula_def safe_tanh_def Let_def
    by (rule linear_mono) (simp_all add: clamp_def)
  then show ?thesis by simp
qed

lemma score_formula_least: "score_formula 0 0 1 = 20 * tanh (1 / 5)"
  by (simp add: score_formula_def safe_tanh_def clamp_def)

lemma py_float_Inr: "\<bar>n\<bar> < float_limit \<Longrightarrow> py_float n = Inr (of_int n)"
  by (simp add: py_float_def)

lemma compute_score_Inr:
  assumes "\<bar>or_default a 0\<bar> < float_limit" "\<bar>or_default d 0\<bar> < float_limit"
    "\<bar>or_default v 1\<bar> < float_limit"
  shows "compute_score a d v
           = Inr (py_round2 (score_formula (of_int (or_default a 0)) (of_int (or_default d 0))
                   (of_int (or_default v 1))))"
  using assms by (simp add: compute_score_def py_float_Inr)

lemma compute_score_InrD:
  assumes "compute_score a d v = Inr s"
  shows "\<exists>fa fd fv. s = py_round2 (score_formula fa fd fv)"
  using assms by (auto simp: compute_score_def split: sum.splits)

text \<open>
  C2, as stated, speaks of all integers from 0 (or 1) on. A Python integer is unbounded and
  \<open>float\<close> refuses the ones beyond the range of a double, so on such an input
  \<open>compute_score\<close> raises \<open>OverflowError\<close> and returns no value.
\<close>

theorem compute_score_overflow:
  "compute_score (Some (2 ^ 1024)) (Some 0) (Some 1) = Inl OverflowError"
  by (simp add: compute_score_def py_float_def float_limit_def)

text \<open>
  C2, amended: for integers that \<open>float\<close> converts (below \<open>float_limit\<close>), with
  \<open>advertiser_active_ads_est \<ge> 0\<close>, \<open>days_active \<ge> 0\<close> and \<open>variations_count \<ge> 1\<close>,
  \<open>compute_score\<close> returns a value in [0, 100] and never decreases when any of its
  arguments grows. The statement takes two triples ordered argument by argument; with two
  of the three arguments equal it is monotonicity in the third alone, and with the triples
  equal it is the range.
\<close>

theorem compute_score_range_monotone:
  assumes "0 \<le> a" "a \<le> a'" "a' < float_limit"
    and "0 \<le> d" "d \<le> d'" "d' < float_limit"
    and "1 \<le> v" "v \<le> v'" "v' < float_limit"
  shows "\<exists>s s'. compute_score (Some a) (Some d) (Some v) = Inr s
           \<and> compute_score (Some a') (Some d') (Some v') = Inr s'
           \<and> 0 \<le> s \<and> s \<le> s' \<and> s' \<le> 100"
proof -
  define s where "s = py_round2 (score_formula (of_int a) (of_int d) (of_int v))"
  define s' where "s' = py_round2 (score_formula (of_int a') (of_int d') (of_int v'))"
  have "compute_score (Some a) (Some d) (Some v) = Inr s"
    using assms by (simp add: compute_score_Inr s_def)
  moreover have "compute_score (Some a') (Some d') (Some v') = Inr s'"
    using assms by (simp add: compute_score_Inr s'_def)
  moreover have "0 \<le> s"
    using py_round2_mono [of 0 "score_formula (of_int a) (of_int d) (of_int v)"]
      score_formula_range [of "of_int a" "of_int d" "of_int v"]
    by (simp add: s_def py_round2_zero)
  moreover have "s \<le> s'"
    unfolding s_def s'_def using assms
    by (intro py_round2_mono score_formula_mono) simp_all
  moreover have "s' \<le> 100"
    using py_round2_mono [of "score_formula (of_int a') (of_int d') (of_int v')" 100]
      score_formula_range [of "of_int a'" "of_int d'" "of_int v'"]
    by (simp add: s'_def py_round2_hundred)
  ultimately show ?thesis by blast
qed

theorem compute_score_range_monotone_witness:
  "\<exists>s s'. compute_score (Some 0) (Some 5) (Some 1) = Inr s
           \<and> compute_score (Some 10) (Some 5) (Some 3) = Inr s'
           \<and> 0 \<le> s \<and> s \<le> s' \<and> s' \<le> 100"
  using compute_score_range_monotone [of 0 10 5 5 1 3] by (simp add: float_limit_def)

text \<open>
  C10: whatever the three arguments are (\<open>None\<close>, zero and negative values included),
  a value that \<open>compute_score\<close> returns is at least 3.95, hence never 0; a value is
  returned whenever the three integers convert to \<open>float\<close>; and 3.95 is the score of
  \<open>(0, 0, 1)\<close>, that is \<open>round(100 * 0.2 * tanh(1/5), 2)\<close>.
\<close>

theorem compute_score_at_least_3_95:
  "(\<forall>s. compute_score a d v = Inr s \<longrightarrow> 395 / 100 \<le> s)
   \<and> (\<bar>or_default a 0\<bar> < float_limit \<and> \<bar>or_default d 0\<bar> < float_limit
        \<and> \<bar>or_default v 1\<bar> < float_limit \<longrightarrow> (\<exists>s. compute_score a d v = Inr s))
   \<and> compute_score (Some 0) (Some 0) (Some 1) = Inr (395 / 100)"
proof (intro conjI allI impI)
  fix s assume "compute_score a d v = Inr s"
  then obtain fa fd fv where s: "s = py_round2 (score_formula fa fd fv)"
    using compute_score_InrD by blast
  have "3945 / 1000 < score_formula fa fd fv"
    using score_formula_floor [of fa fd fv] tanh_one_fifth by linarith
  then show "395 / 100 \<le> s" unfolding s by (rule py_round2_ge_395)
next
  assume "\<bar>or_default a 0\<bar> < float_limit \<and> \<bar>or_default d 0\<bar> < float_limit
        \<and> \<bar>or_default v 1\<bar> < float_limit"
  then show "\<exists>s. compute_score a d v = Inr s" by (simp add: compute_score_Inr)
next
  have b: "3945 / 1000 < score_formula 0 0 1" "score_formula 0 0 1 < 3955 / 1000"
    using tanh_one_fifth by (simp_all add: score_formula_least)
  have "py_round2 (score_formula 0 0 1) = 395 / 100"
    using py_round2_ge_395 [OF b(1)] py_round2_le_395 [OF b(2)] by linarith
  moreover have "compute_score (Some 0) (Some 0) (Some 1) = Inr (py_round2 (score_formula 0 0 1))"
    using compute_score_Inr [of "Some 0" "Some 0" "Some 1"] by (simp add: float_limit_def)
  ultimately show "compute_score (Some 0) (Some 0) (Some 1) = Inr (395 / 100)" by simp
qed

theorem compute_score_at_least_3_95_witness:
  "\<exists>s. compute_score None (Some (- 7)) (Some 0) = Inr s \<and> 395 / 100 \<le> s"
proof -
  have "\<bar>or_default None 0\<bar> < float_limit \<and> \<bar>or_default (Some (- 7)) 0\<bar> < float_limit
          \<and> \<bar>or_default (Some 0) 1\<bar> < float_limit"
    by (simp add: float_limit_def)
  with compute_score_at_least_3_95 [of None "Some (- 7)" "Some 0"] show ?thesis by blast
qed

section \<open>Properties of the text normalisation\<close>

lemma normalize_text_no_control: "c \<in> set (normalize_text t) \<Longrightarrow> \<not> is_control c"
  by (simp add: normalize_text_def sub_control_def split: if_splits)

text \<open>
  C3 fails on the code. \<open>normalize_text\<close> collapses the whitespace first and deletes the
  control characters afterwards, so two spaces that a control character kept apart end up
  side by side: on \<open>"a \x00 b"\<close> it returns \<open>"a  b"\<close>, with two consecutive spaces, and
  normalising that once more gives \<open>"a b"\<close>, so the function is not idempotent either.
\<close>

theorem normalize_text_leaves_double_space:
  "normalize_text (Some [CHR ''a'', CHR '' '', CHR 0x00, CHR '' '', CHR ''b'']) = ''a  b''
   \<and> normalize_text (Some ''a  b'') = ''a b''"
  by (simp add: normalize_text_def strip_def is_space_def sub_control_def is_control_def)

lemma foldl_remove_prefix_removed:
  "\<exists>ps. subseq ps qs \<and> removed h ps = Some (foldl remove_prefix h qs)"
proof (induction qs arbitrary: h)
  case Nil
  have "subseq [] ([] :: pystr list) \<and> removed h [] = Some (foldl remove_prefix h [])"
    by simp
  then show ?case by blast
next
  case (Cons q qs)
  show ?case
  proof (cases "startswith h q")
    case True
    obtain ps where ps: "subseq ps qs"
      "removed (strip (drop (length q) h)) ps
         = Some (foldl remove_prefix (strip (drop (length q) h)) qs)"
      using Cons.IH by blast
    have "subseq (q # ps) (q # qs) \<and> removed h (q # ps) = Some (foldl remove_prefix h (q # qs))"
      using True ps by (simp add: remove_prefix_def)
    then show ?thesis by blast
  next
    case False
    obtain ps where ps: "subseq ps qs" "removed h ps = Some (foldl remove_prefix h qs)"
      using Cons.IH by blast
    have "subseq ps (q # qs) \<and> removed h ps = Some (foldl remove_prefix h (q # qs))"
      using False ps by (simp add: remove_prefix_def list_emb_Cons)
    then show ?thesis by blast
  qed
qed

lemma foldl_remove_prefix_none:
  "\<forall>p\<in>set qs. \<not> startswith h p \<Longrightarrow> foldl remove_prefix h qs = h"
  by (induction qs) (simp_all add: remove_prefix_def)

lemma clean_headline_Some:
  "clean_headline (Some h) = normalize_text (Some (foldl remove_prefix h prefixes_to_remove))"
proof (cases "h = []")
  case True
  have "foldl remove_prefix [] prefixes_to_remove = []"
    by (simp add: prefixes_to_remove_def remove_prefix_def startswith_def)
  then show ?thesis using True by (simp add: clean_headline_def normalize_text_def)
next
  case False
  then show ?thesis by (simp add: clean_headline_def)
qed

text \<open>
  C4, as stated, has at most one prefix removed. The loop of \<open>clean_headline\<close> goes on
  after a match, so a headline that carries two labels loses both.
\<close>

theorem clean_headline_removes_two:
  "clean_headline (Some ''Ad:Sponsored:x'') = ''x''
   \<and> clean_headline_spec (Some ''Ad:Sponsored:x'') = ''Sponsored:x''"
  by (simp add: clean_headline_def clean_headline_spec_def prefixes_to_remove_def
      remove_prefix_def startswith_def normalize_text_def strip_def is_space_def
      sub_control_def is_control_def)

lemma removal_foldl: "snd (removal qs h) = foldl remove_prefix h qs"
  by (induction qs arbitrary: h) (simp_all add: remove_prefix_def case_prod_beta)

lemma removal_removed:
  "subseq (fst (removal qs h)) qs \<and> removed h (fst (removal qs h)) = Some (snd (removal qs h))"
proof (induction qs arbitrary: h)
  case Nil
  show ?case by simp
next
  case (Cons q qs)
  show ?case
  proof (cases "startswith h q")
    case True
    then show ?thesis
      using Cons [of "strip (drop (length q) h)"] by (simp add: case_prod_beta)
  next
    case False
    then show ?thesis using Cons [of h] by (simp add: list_emb_Cons)
  qed
qed

lemma removal_first:
  "(case List.find (startswith h) qs of
      None \<Rightarrow> removal qs h = ([], h)
    | Some q \<Rightarrow> (\<exists>ps. fst (removal qs h) = q # ps))"
  by (induction qs) (auto simp: case_prod_beta split: option.splits)

text \<open>
  C4, amended: \<open>clean_headline\<close> removes a known label prefix only where the string, as
  the earlier removals left it, starts with it. It tries the four prefixes once each, in
  the order of the list, removes every one that the string starts with at its turn and
  strips the whitespace around the rest after each removal. So its result is
  \<open>normalize_text\<close> of the remainder that \<open>removal\<close> computes; the prefixes removed
  are a subsequence of the list (possibly more than one, none twice), each one a prefix of
  what was left when its turn came; the first prefix of the list that the input
  starts with is always the first one removed, and nothing is removed when the input starts
  with none. An absent headline gives the empty string.
\<close>

theorem clean_headline_removes_in_order:
  "(case removal prefixes_to_remove h of
      (ps, r) \<Rightarrow>
        clean_headline (Some h) = normalize_text (Some r)
        \<and> subseq ps prefixes_to_remove \<and> removed h ps = Some r
        \<and> (case List.find (startswith h) prefixes_to_remove of
              None \<Rightarrow> ps = [] \<and> r = h
            | Some q \<Rightarrow> (\<exists>ps'. ps = q # ps')))
   \<and> ((\<forall>p\<in>set prefixes_to_remove. \<not> startswith h p)
        \<longrightarrow> clean_headline (Some h) = normalize_text (Some h))
   \<and> clean_headline None = []"
proof (intro conjI impI)
  obtain ps r where pr: "removal prefixes_to_remove h = (ps, r)"
    by (cases "removal prefixes_to_remove h")
  have 1: "clean_headline (Some h) = normalize_text (Some r)"
    using removal_foldl [where h = h and qs = prefixes_to_remove] pr by (simp add: clean_headline_Some)
  have 2: "subseq ps prefixes_to_remove \<and> removed h ps = Some r"
    using removal_removed [where h = h and qs = prefixes_to_remove] pr by simp
  have 3: "case List.find (startswith h) prefixes_to_remove of
              None \<Rightarrow> ps = [] \<and> r = h
            | Some q \<Rightarrow> (\<exists>ps'. ps = q # ps')"
    using removal_first [where h = h and qs = prefixes_to_remove] pr by (simp split: option.splits)
  show "case removal prefixes_to_remove h of
      (ps, r) \<Rightarrow>
        clean_headline (Some h) = normalize_text (Some r)
        \<and> subseq ps prefixes_to_remove \<and> removed h ps = Some r
        \<and> (case List.find (startswith h) prefixes_to_remove of
              None \<Rightarrow> ps = [] \<and> r = h
            | Some q \<Rightarrow> (\<exists>ps'. ps = q # ps'))"
    unfolding pr using 1 2 3 by simp
next
  assume "\<forall>p\<in>set prefixes_to_remove. \<not> startswith h p"
  then show "clean_headline (Some h) = normalize_text (Some h)"
    by (simp add: clean_headline_Some foldl_remove_prefix_none)
next
  show "clean_headline None = []" by (simp add: clean_headline_def)
qed

theorem clean_headline_removes_in_order_witness:
  "clean_headline (Some ''Oferta'') = normalize_text (Some ''Oferta'')
   \<and> clean_headline (Some ''Ad: Sponsored: oferta'') = normalize_text (Some ''oferta'')
   \<and> clean_headline (Some ''Sponsored: Ad: oferta'') = normalize_text (Some ''Ad: oferta'')"
proof -
  have h: "\<forall>p\<in>set prefixes_to_remove. \<not> startswith ''Oferta'' p"
    by (simp add: prefixes_to_remove_def startswith_def)
  have r: "removal prefixes_to_remove ''Ad: Sponsored: oferta''
             = ([''Ad:'', ''Sponsored:''], ''oferta'')"
    by code_simp
  have r': "removal prefixes_to_remove ''Sponsored: Ad: oferta''
             = ([''Sponsored:''], ''Ad: oferta'')"
    by code_simp
  show ?thesis
    using clean_headline_removes_in_order [of "''Oferta''"] h
      clean_headline_removes_in_order [of "''Ad: Sponsored: oferta''"]
      clean_headline_removes_in_order [of "''Sponsored: Ad: oferta''"]
    unfolding r r' by simp
qed

section \<open>Properties of the result pipeline\<close>

lemma ranked_before_key: "ranked_before x y = (sort_key_of x \<le> sort_key_of y)"
  by (auto simp: ranked_before_def sort_key_of_def less_eq_prod_def)

lemma sorted_sort_results: "sorted_wrt ranked_before (sort_results xs)"
proof -
  have "sorted (map sort_key_of (sort_results xs))"
    by (simp add: sort_results_def)
  then have "sorted_wrt (\<lambda>x y. sort_key_of x \<le> sort_key_of y) (sort_results xs)"
    by (simp add: sorted_map)
  then show ?thesis
    by (simp add: ranked_before_key [abs_def])
qed

lemma sort_results_stable:
  "filter (\<lambda>x. score (ad x) = s \<and> days_active (ad x) = d) (sort_results xs)
     = filter (\<lambda>x. score (ad x) = s \<and> days_active (ad x) = d) xs"
proof -
  have "(\<lambda>x. score (ad x) = s \<and> days_active (ad x) = d) = (\<lambda>x. sort_key_of x = (- s, - d))"
    by (auto simp: sort_key_of_def)
  then show ?thesis
    by (simp add: sort_results_def sort_key_stable)
qed

lemma set_sort_results: "set (sort_results xs) = set xs"
  by (simp add: sort_results_def)

lemma length_sort_results: "length (sort_results xs) = length xs"
  by (simp add: sort_results_def)

lemma sort_results_sorted: "sorted_wrt ranked_before xs \<Longrightarrow> sort_results xs = xs"
proof -
  assume "sorted_wrt ranked_before xs"
  then have "sorted_wrt (\<lambda>x y. sort_key_of x \<le> sort_key_of y) xs"
    by (simp add: ranked_before_key [abs_def])
  then have "sorted (map sort_key_of xs)" by (simp add: sorted_map)
  then show ?thesis by (simp add: sort_results_def sort_key_id_if_sorted)
qed



lemma enhance_one_InrD:
  assumes "enhance_one x = Inr y"
  shows "\<exists>s. compute_score (Some (advertiser_active_ads_est (ad x)))
             (Some (days_active (ad x))) (Some (variations_count (ad x))) = Inr s
           \<and> y = x\<lparr>ad := (ad x)
                 \<lparr>score := s,
                  dropshipping_flag :=
                    (if \<not> dropshipping_flag (ad x) \<and> \<not> falsy (landing_url (ad x))
                     then is_probable_dropshipping (landing_url (ad x))
                     else dropshipping_flag (ad x))\<rparr>\<rparr>"
proof (cases "compute_score (Some (advertiser_active_ads_est (ad x)))
             (Some (days_active (ad x))) (Some (variations_count (ad x)))")
  case (Inl e)
  then show ?thesis using assms by (simp add: enhance_one_def)
next
  case (Inr s)
  then show ?thesis using assms by (simp add: enhance_one_def)
qed

lemma enhance_one_unchanged:
  assumes "compute_score (Some (advertiser_active_ads_est (ad y)))
             (Some (days_active (ad y))) (Some (variations_count (ad y))) = Inr (score (ad y))"
    and "dropshipping_flag (ad y) \<or> falsy (landing_url (ad y))
           \<or> \<not> is_probable_dropshipping (landing_url (ad y))"
  shows "enhance_one y = Inr y"
proof -
  have "(if \<not> dropshipping_flag (ad y) \<and> \<not> falsy (landing_url (ad y))
         then is_probable_dropshipping (landing_url (ad y))
         else dropshipping_flag (ad y)) = dropshipping_flag (ad y)"
    using assms(2) by auto
  then show ?thesis using assms(1) by (simp add: enhance_one_def)
qed

lemma enhance_one_fixedD:
  assumes "enhance_one y = Inr y"
  shows "compute_score (Some (advertiser_active_ads_est (ad y)))
             (Some (days_active (ad y))) (Some (variations_count (ad y))) = Inr (score (ad y))"
    and "dropshipping_flag (ad y) \<or> falsy (landing_url (ad y))
           \<or> \<not> is_probable_dropshipping (landing_url (ad y))"
proof -
  obtain s where s: "compute_score (Some (advertiser_active_ads_est (ad y)))
             (Some (days_active (ad y))) (Some (variations_count (ad y))) = Inr s"
    and y: "y = y\<lparr>ad := (ad y)
                 \<lparr>score := s,
                  dropshipping_flag :=
                    (if \<not> dropshipping_flag (ad y) \<and> \<not> falsy (landing_url (ad y))
                     then is_probable_dropshipping (landing_url (ad y))
                     else dropshipping_flag (ad y))\<rparr>\<rparr>"
    using enhance_one_InrD [OF assms] by blast
  have "score (ad y) = s" by (subst y) simp
  with s show "compute_score (Some (advertiser_active_ads_est (ad y)))
             (Some (days_active (ad y))) (Some (variations_count (ad y))) = Inr (score (ad y))"
    by simp
  have "dropshipping_flag (ad y) = (if \<not> dropshipping_flag (ad y) \<and> \<not> falsy (landing_url (ad y))
                     then is_probable_dropshipping (landing_url (ad y))
                     else dropshipping_flag (ad y))"
    by (subst y) simp
  then show "dropshipping_flag (ad y) \<or> falsy (landing_url (ad y))
           \<or> \<not> is_probable_dropshipping (landing_url (ad y))"
    by (cases "dropshipping_flag (ad y)"; cases "falsy (landing_url (ad y))") simp_all
qed

lemma enhance_one_fixed:
  assumes "enhance_one x = Inr y"
  shows "enhance_one y = Inr y"
proof -
  obtain s where s: "compute_score (Some (advertiser_active_ads_est (ad x)))
             (Some (days_active (ad x))) (Some (variations_count (ad x))) = Inr s"
    and y: "y = x\<lparr>ad := (ad x)
                 \<lparr>score := s,
                  dropshipping_flag :=
                    (if \<not> dropshipping_flag (ad x) \<and> \<not> falsy (landing_url (ad x))
                     then is_probable_dropshipping (landing_url (ad x))
                     else dropshipping_flag (ad x))\<rparr>\<rparr>"
    using enhance_one_InrD [OF assms] by blast
  show ?thesis
  proof (rule enhance_one_unchanged)
    show "compute_score (Some (advertiser_active_ads_est (ad y)))
             (Some (days_active (ad y))) (Some (variations_count (ad y))) = Inr (score (ad y))"
      using s by (simp add: y)
    show "dropshipping_flag (ad y) \<or> falsy (landing_url (ad y))
           \<or> \<not> is_probable_dropshipping (landing_url (ad y))"
      by (simp add: y)
  qed
qed

lemma enhance_one_reason:
  assumes "enhance_one x = Inr x"
  shows "enhance_one (x\<lparr>ad := (ad x)\<lparr>exclusion_reason := r\<rparr>\<rparr>)
       = Inr (x\<lparr>ad := (ad x)\<lparr>exclusion_reason := r\<rparr>\<rparr>)"
  using enhance_one_fixedD [OF assms] by (intro enhance_one_unchanged) simp_all

lemma enhance_results_fixed:
  "enhance_results xs = Inr ys \<Longrightarrow> y \<in> set ys \<Longrightarrow> enhance_one y = Inr y"
proof (induction xs arbitrary: ys)
  case Nil
  then show ?case by simp
next
  case (Cons x xs)
  obtain r rs where r: "enhance_one x = Inr r" and rs: "enhance_results xs = Inr rs"
    and ys: "ys = r # rs"
    using Cons.prems(1) by (auto split: sum.splits)
  show ?case
  proof (cases "y = r")
    case True
    then show ?thesis using r enhance_one_fixed by blast
  next
    case False
    then have "y \<in> set rs" using Cons.prems(2) ys by simp
    then show ?thesis using Cons.IH [OF rs] by blast
  qed
qed

lemma enhance_results_unchanged:
  "\<forall>y\<in>set ys. enhance_one y = Inr y \<Longrightarrow> enhance_results ys = Inr ys"
  by (induction ys) simp_all

lemma filter_results_eq:
  "filter_results results request = List.map_filter (filter_rule request) results"
  by (induction results) (simp_all add: filter_rule_def is_marketplace_truthy)

lemma filter_rule_fixed:
  assumes "filter_rule request x = Some y"
  shows "filter_rule request y = Some y"
proof (cases "exclude_marketplaces request \<and> is_marketplace (landing_url (ad x))")
  case True
  then have y: "y = x\<lparr>ad := (ad x)\<lparr>exclusion_reason := Some ''Marketplace''\<rparr>\<rparr>"
    using assms by (simp add: filter_rule_def)
  show ?thesis using True by (simp add: y filter_rule_def)
next
  case False
  then have "y = x" using assms by (simp add: filter_rule_def split: if_splits)
  then show ?thesis using assms by simp
qed

lemma filter_rule_enhanced:
  assumes "filter_rule request x = Some y" "enhance_one x = Inr x"
  shows "enhance_one y = Inr y"
proof (cases "exclude_marketplaces request \<and> is_marketplace (landing_url (ad x))")
  case True
  then have y: "y = x\<lparr>ad := (ad x)\<lparr>exclusion_reason := Some ''Marketplace''\<rparr>\<rparr>"
    using assms by (simp add: filter_rule_def)
  show ?thesis unfolding y using assms(2) by (rule enhance_one_reason)
next
  case False
  then have "y = x" using assms by (simp add: filter_rule_def split: if_splits)
  then show ?thesis using assms by simp
qed

lemma set_map_filter: "y \<in> set (List.map_filter f xs) \<longleftrightarrow> (\<exists>x\<in>set xs. f x = Some y)"
  by (induction xs) (auto simp: List.map_filter_simps split: option.splits)

lemma map_filter_unchanged: "\<forall>y\<in>set ys. f y = Some y \<Longrightarrow> List.map_filter f ys = ys"
  by (induction ys) (simp_all add: List.map_filter_simps)

lemma search_ads_InrD:
  assumes "search_ads request results = Inr out"
  shows "\<exists>enhanced. enhance_results results = Inr enhanced
           \<and> out = sort_results (filter_results enhanced request)"
proof (cases "results = []")
  case True
  then have "out = []" using assms by (simp add: search_ads_def)
  then show ?thesis using True by (simp add: sort_results_def)
next
  case False
  then show ?thesis using assms by (simp add: search_ads_def split: sum.splits)
qed

lemma search_ads_fixed:
  assumes "search_ads request results = Inr out"
  shows "search_ads request out = Inr out"
proof -
  obtain enhanced where e: "enhance_results results = Inr enhanced"
    and out: "out = sort_results (filter_results enhanced request)"
    using search_ads_InrD [OF assms] by blast
  have mem: "\<exists>x\<in>set enhanced. filter_rule request x = Some y" if "y \<in> set out" for y
    using that by (simp add: out set_sort_results filter_results_eq set_map_filter)
  have en: "\<forall>y\<in>set out. enhance_one y = Inr y"
    using mem enhance_results_fixed [OF e] filter_rule_enhanced by blast
  have fl: "\<forall>y\<in>set out. filter_rule request y = Some y"
    using mem filter_rule_fixed by blast
  have 1: "enhance_results out = Inr out" using en by (rule enhance_results_unchanged)
  have 2: "filter_results out request = out"
    using fl by (simp add: filter_results_eq map_filter_unchanged)
  have 3: "sort_results out = out"
    unfolding out by (rule sort_results_sorted) (rule sorted_sort_results)
  show ?thesis
    using 1 2 3 by (simp add: search_ads_def)
qed


lemma enhance_one_total:
  assumes "convertible x"
  shows "\<exists>y. enhance_one x = Inr y"
proof -
  have "1 < float_limit" by (simp add: float_limit_def)
  then have "\<exists>s. compute_score (Some (advertiser_active_ads_est (ad x)))
             (Some (days_active (ad x))) (Some (variations_count (ad x))) = Inr s"
    using assms by (simp add: convertible_def compute_score_Inr)
  then show ?thesis by (auto simp: enhance_one_def)
qed

lemma enhance_results_total:
  "\<forall>x\<in>set xs. convertible x \<Longrightarrow> \<exists>ys. enhance_results xs = Inr ys"
proof (induction xs)
  case Nil
  then show ?case by simp
next
  case (Cons x xs)
  obtain y where "enhance_one x = Inr y" using Cons.prems enhance_one_total by auto
  moreover obtain ys where "enhance_results xs = Inr ys" using Cons by auto
  ultimately show ?case by simp
qed

lemma search_ads_total:
  assumes "\<forall>x\<in>set results. convertible x"
  shows "\<exists>out. search_ads request results = Inr out"
proof -
  obtain ys where "enhance_results results = Inr ys"
    using enhance_results_total [OF assms] by blast
  then show ?thesis by (simp add: search_ads_def)
qed

lemma search_ads_scores:
  assumes "search_ads request results = Inr out" "x \<in> set out"
  shows "compute_score (Some (advertiser_active_ads_est (ad x))) (Some (days_active (ad x)))
           (Some (variations_count (ad x))) = Inr (score (ad x))"
proof -
  obtain enhanced where e: "enhance_results results = Inr enhanced"
    and out: "out = sort_results (filter_results enhanced request)"
    using search_ads_InrD [OF assms(1)] by blast
  obtain z where "z \<in> set enhanced" "filter_rule request z = Some x"
    using assms(2) by (auto simp: out set_sort_results filter_results_eq set_map_filter)
  then have "enhance_one x = Inr x"
    using enhance_results_fixed [OF e] filter_rule_enhanced by blast
  then show ?thesis by (rule enhance_one_fixedD)
qed

lemma convertible_examples: "\<forall>x\<in>set [record_x, record_y]. convertible x"
  by (simp add: convertible_def record_x_def record_y_def out_of_def blank_ad_def float_limit_def)

text \<open>
  C7: the list that \<open>search_ads\<close> returns is the filtered list sorted by
  \<open>(-score, -days_active)\<close>: each record stands before the ones with a lower score and,
  among equal scores, before the ones with fewer days; the records that agree on both keys
  keep the order they had in the filtered list; and every score is the one
  \<open>compute_score\<close> gives for the counters of its record. The first two parts hold of the
  sort on any list.
\<close>

theorem search_ads_sorted_stable:
  "sorted_wrt ranked_before (sort_results xs)
   \<and> (\<forall>s d. filter (\<lambda>x. score (ad x) = s \<and> days_active (ad x) = d) (sort_results xs)
             = filter (\<lambda>x. score (ad x) = s \<and> days_active (ad x) = d) xs)
   \<and> (search_ads request results = Inr out \<longrightarrow>
        (\<exists>enhanced. enhance_results results = Inr enhanced
            \<and> out = sort_results (filter_results enhanced request))
        \<and> sorted_wrt ranked_before out
        \<and> (\<forall>x\<in>set out.
              compute_score (Some (advertiser_active_ads_est (ad x))) (Some (days_active (ad x)))
                (Some (variations_count (ad x))) = Inr (score (ad x))))"
proof (intro conjI allI impI ballI)
  show "sorted_wrt ranked_before (sort_results xs)" by (rule sorted_sort_results)
next
  fix s d
  show "filter (\<lambda>x. score (ad x) = s \<and> days_active (ad x) = d) (sort_results xs)
             = filter (\<lambda>x. score (ad x) = s \<and> days_active (ad x) = d) xs"
    by (rule sort_results_stable)
next
  assume "search_ads request results = Inr out"
  then show "\<exists>enhanced. enhance_results results = Inr enhanced
            \<and> out = sort_results (filter_results enhanced request)"
    by (rule search_ads_InrD)
next
  assume "search_ads request results = Inr out"
  then obtain enhanced where "out = sort_results (filter_results enhanced request)"
    using search_ads_InrD by blast
  then show "sorted_wrt ranked_before out" by (simp add: sorted_sort_results)
next
  fix x assume "search_ads request results = Inr out" "x \<in> set out"
  then show "compute_score (Some (advertiser_active_ads_est (ad x))) (Some (days_active (ad x)))
                (Some (variations_count (ad x))) = Inr (score (ad x))"
    by (rule search_ads_scores)
qed

theorem search_ads_sorted_stable_witness:
  "\<exists>out. search_ads (request_of True 0 0) [record_x, record_y] = Inr out
     \<and> sorted_wrt ranked_before out"
proof -
  obtain out where out: "search_ads (request_of True 0 0) [record_x, record_y] = Inr out"
    using search_ads_total [OF convertible_examples] by blast
  with search_ads_sorted_stable [of "[]" "request_of True 0 0" "[record_x, record_y]" out]
  show ?thesis by blast
qed

text \<open>
  C8: the pipeline is idempotent. Whenever \<open>search_ads\<close> returns a list, running it on
  that list with the same request returns the very same list; and it does return a list
  on every input whose counters \<open>float\<close> converts.
\<close>

theorem search_ads_idempotent:
  "(search_ads request results = Inr out \<longrightarrow> search_ads request out = Inr out)
   \<and> ((\<forall>x\<in>set results. convertible x) \<longrightarrow> (\<exists>out'. search_ads request results = Inr out'))"
  using search_ads_fixed search_ads_total by blast

theorem search_ads_idempotent_witness:
  "\<exists>out. search_ads (request_of True 3 0) [record_y, record_x] = Inr out
     \<and> search_ads (request_of True 3 0) out = Inr out"
proof -
  have c: "\<forall>x\<in>set [record_y, record_x]. convertible x"
    using convertible_examples by simp
  obtain out where out: "search_ads (request_of True 3 0) [record_y, record_x] = Inr out"
    using search_ads_idempotent [of "request_of True 3 0" "[record_y, record_x]" "[]"] c
    by blast
  with search_ads_idempotent [of "request_of True 3 0" "[record_y, record_x]" out]
  show ?thesis by blast
qed

section \<open>Properties of the matcher and of the integer parser\<close>

lemma rx_search_SomeD: "rx_search r s = Some c \<Longrightarrow> \<exists>t s'. (c, s') \<in> set (rx_match r t)"
proof (induction s)
  case Nil
  show ?case
  proof (cases "rx_match r []")
    case Nil
    then show ?thesis using Nil.prems by simp
  next
    case (Cons m ms)
    then have "(c, snd m) \<in> set (rx_match r [])"
      using Nil.prems by (cases m) simp
    then show ?thesis by blast
  qed
next
  case (Cons x xs)
  show ?case
  proof (cases "rx_match r (x # xs)")
    case Nil
    then show ?thesis using Cons by simp
  next
    case (Cons m ms)
    then have "(c, snd m) \<in> set (rx_match r (x # xs))"
      using Cons.prems by (cases m) simp
    then show ?thesis by blast
  qed
qed

lemma rx_match_Seq_iff:
  "(c, s') \<in> set (rx_match (Seq r1 r2) s) \<longleftrightarrow>
     (\<exists>c1 s1 c2. (c1, s1) \<in> set (rx_match r1 s) \<and> (c2, s') \<in> set (rx_match r2 s1)
        \<and> c = c1 @ c2)"
  by force

lemma rx_match_Rep_caps: "(c, s') \<in> set (rx_match (Rep P lo hi) s) \<Longrightarrow> c = []"
  by (auto simp: Let_def)

lemma rx_match_Lit_caps: "(c, s') \<in> set (rx_match (Lit l) s) \<Longrightarrow> c = []"
  by (auto split: if_splits)

lemma rx_match_Cls_caps: "(c, s') \<in> set (rx_match (Cls P) s) \<Longrightarrow> c = []"
  by (auto split: if_splits list.splits)

lemma take_all_takeWhile:
  "i \<le> length (takeWhile P s) \<Longrightarrow> \<forall>x\<in>set (take i s). P x"
proof (induction s arbitrary: i)
  case Nil
  then show ?case by simp
next
  case (Cons a s)
  show ?case
  proof (cases i)
    case 0
    then show ?thesis by simp
  next
    case (Suc j)
    then have "P a" "j \<le> length (takeWhile P s)"
      using Cons.prems by (auto split: if_splits)
    then show ?thesis using Cons.IH Suc by simp
  qed
qed

lemma rx_match_Rep_iff:
  "(c, s') \<in> set (rx_match (Rep P lo hi) s) \<longleftrightarrow>
     c = [] \<and> (\<exists>i. lo \<le> i
        \<and> i \<le> (case hi of None \<Rightarrow> length (takeWhile P s)
                  | Some h \<Rightarrow> min h (length (takeWhile P s)))
        \<and> s' = drop i s)"
  by (auto simp: Let_def image_iff)

lemma rx_match_Grp_iff:
  "(c, s') \<in> set (rx_match (Grp r) s) \<longleftrightarrow>
     (\<exists>c'. (c', s') \<in> set (rx_match r s) \<and> c = take (length s - length s') s # c')"
  by force

lemma rx_match_Grp_Rep:
  assumes "(c, s') \<in> set (rx_match (Grp (Rep P lo hi)) s)"
  shows "\<exists>g. c = [g] \<and> (\<forall>x\<in>set g. P x) \<and> lo \<le> length g
           \<and> (case hi of None \<Rightarrow> True | Some h \<Rightarrow> length g \<le> h)"
proof -
  define k where "k = length (takeWhile P s)"
  define k' where "k' = (case hi of None \<Rightarrow> k | Some h \<Rightarrow> min h k)"
  have kk: "k' \<le> k" by (simp add: k'_def split: option.splits)
  have kl: "k \<le> length s" by (simp add: k_def length_takeWhile_le)
  obtain i where i: "lo \<le> i" "i \<le> k'" and c: "c = [take (length s - length (drop i s)) s]"
    using assms unfolding rx_match_Grp_iff rx_match_Rep_iff k_def k'_def by blast
  have "length s - length (drop i s) = i" using i kk kl by simp
  then have c': "c = [take i s]" using c by simp
  have "\<forall>x\<in>set (take i s). P x"
    using i kk by (intro take_all_takeWhile) (simp add: k_def)
  moreover have "lo \<le> length (take i s)" using i kk kl by simp
  moreover have "case hi of None \<Rightarrow> True | Some h \<Rightarrow> length (take i s) \<le> h"
    using i by (auto simp: k'_def split: option.splits)
  ultimately show ?thesis using c' by blast
qed

lemma is_digit_not_space: "is_digit c \<Longrightarrow> \<not> is_int_space c"
  by (auto simp: is_digit_def is_int_space_def Let_def)

lemma is_digit_not_sign: "is_digit c \<Longrightarrow> c \<noteq> CHR ''-'' \<and> c \<noteq> CHR ''+'' \<and> c \<noteq> CHR ''_''"
  by (auto simp: is_digit_def Let_def)

lemma digits_underscores_digits:
  "g \<noteq> [] \<Longrightarrow> \<forall>x\<in>set g. is_digit x \<Longrightarrow> digits_underscores g"
  by (induction g rule: digits_underscores.induct) (auto simp: is_digit_not_sign)

lemma digits_value_nonneg_aux:
  "\<forall>x\<in>set g. is_digit x \<Longrightarrow> 0 \<le> acc \<Longrightarrow>
     0 \<le> foldl (\<lambda>acc c. 10 * acc + (int (of_char c) - 48)) acc g"
proof (induction g arbitrary: acc)
  case Nil
  then show ?case by simp
next
  case (Cons c g)
  have "0 \<le> 10 * acc + (int (of_char c) - 48)"
    using Cons.prems by (simp add: is_digit_def Let_def)
  then show ?case using Cons by simp
qed

lemma digits_value_nonneg: "\<forall>x\<in>set g. is_digit x \<Longrightarrow> 0 \<le> digits_value g"
  unfolding digits_value_def by (rule digits_value_nonneg_aux) simp_all

lemma py_int_digits:
  assumes "g \<noteq> []" "\<forall>x\<in>set g. is_digit x"
  shows "py_int g = (if int_max_str_digits < length g then Inl ValueError
                     else Inr (digits_value g))"
proof -
  obtain c cs where g: "g = c # cs" using assms(1) by (cases g) auto
  have c: "is_digit c" using assms(2) g by simp
  have l: "is_digit (last g)" using assms by simp
  have 1: "dropWhile is_int_space g = g"
    using c g by (simp add: is_digit_not_space)
  have 2: "dropWhile is_int_space (rev g) = rev g"
    using l assms(1) by (cases "rev g") (auto simp: is_digit_not_space last_rev)
  have 3: "filter is_digit g = g" using assms(2) by simp
  have 4: "hd g \<noteq> CHR ''-''" "hd g \<noteq> CHR ''+''"
    using c g is_digit_not_sign by auto
  show ?thesis
    unfolding py_int_def 1 2 rev_rev_ident Let_def
    using assms 3 4 by (simp add: digits_underscores_digits)
qed


section \<open>Properties of the variation estimate\<close>

lemma digits_first:
  assumes "(c, s') \<in> set (rx_match (Seq (Grp (Rep is_digit 1 None)) r) t)"
  shows "\<exists>g gs. c = g # gs \<and> g \<noteq> [] \<and> (\<forall>x\<in>set g. is_digit x)"
proof -
  obtain c1 s1 c2 where m: "(c1, s1) \<in> set (rx_match (Grp (Rep is_digit 1 None)) t)"
    and c: "c = c1 @ c2"
    using assms unfolding rx_match_Seq_iff by blast
  obtain g where g: "c1 = [g]" "\<forall>x\<in>set g. is_digit x" "1 \<le> length g"
    using rx_match_Grp_Rep [OF m] by blast
  have "c = g # c2" using c g by simp
  moreover have "g \<noteq> []" using g by auto
  ultimately show ?thesis using g by blast
qed

lemma digits_last:
  assumes "(c, s') \<in> set (rx_match
     (Seq (Lit l1) (Seq (Rep P1 a1 b1) (Seq (Lit l2) (Seq (Rep P2 a2 b2)
        (Grp (Rep is_digit 1 None)))))) t)"
  shows "\<exists>g gs. c = g # gs \<and> g \<noteq> [] \<and> (\<forall>x\<in>set g. is_digit x)"
proof -
  obtain c1 c2 c3 c4 c5 s1 s2 s3 s4 where
    m1: "(c1, s1) \<in> set (rx_match (Lit l1) t)"
    and m2: "(c2, s2) \<in> set (rx_match (Rep P1 a1 b1) s1)"
    and m3: "(c3, s3) \<in> set (rx_match (Lit l2) s2)"
    and m4: "(c4, s4) \<in> set (rx_match (Rep P2 a2 b2) s3)"
    and m5: "(c5, s') \<in> set (rx_match (Grp (Rep is_digit 1 None)) s4)"
    and c: "c = c1 @ c2 @ c3 @ c4 @ c5"
    using assms unfolding rx_match_Seq_iff by blast
  obtain g where g: "c5 = [g]" "\<forall>x\<in>set g. is_digit x" "1 \<le> length g"
    using rx_match_Grp_Rep [OF m5] by blast
  have "c1 = []" "c2 = []" "c3 = []" "c4 = []"
    using rx_match_Lit_caps [OF m1] rx_match_Rep_caps [OF m2]
      rx_match_Lit_caps [OF m3] rx_match_Rep_caps [OF m4] by blast+
  then have "c = [g]" using c g by simp
  moreover have "g \<noteq> []" using g by auto
  ultimately show ?thesis using g by blast
qed

lemma indicator_first_group:
  assumes "p \<in> set variation_indicators" "(c, s') \<in> set (rx_match p t)"
  shows "\<exists>g gs. c = g # gs \<and> g \<noteq> [] \<and> (\<forall>x\<in>set g. is_digit x)"
  using assms unfolding variation_indicators_def
  by (auto simp only: set_simps insert_iff empty_iff dest: digits_first digits_last)

lemma indicator_value_nonneg:
  assumes "p \<in> set variation_indicators" "indicator_value p s = Some n"
  shows "0 \<le> n"
proof -
  obtain caps g where caps: "rx_search p s = Some caps" and g: "group1 caps = Inr g"
    and n: "py_int g = Inr n"
    using assms(2) by (auto simp: indicator_value_def split: option.splits sum.splits)
  obtain t s' where "(caps, s') \<in> set (rx_match p t)"
    using rx_search_SomeD [OF caps] by blast
  then obtain g' gs where "caps = g' # gs" "g' \<noteq> []" "\<forall>x\<in>set g'. is_digit x"
    using indicator_first_group [OF assms(1)] by blast
  then have "g \<noteq> []" "\<forall>x\<in>set g. is_digit x"
    using g by (simp_all add: group1_def)
  then show ?thesis
    using n by (auto simp: py_int_digits digits_value_nonneg split: if_splits)
qed

lemma try_indicators_eq:
  "try_indicators ps s =
     (case List.map_filter (\<lambda>p. indicator_value p s) ps of [] \<Rightarrow> 1 | n # ns \<Rightarrow> min n 20)"
  by (induction ps)
     (auto simp: List.map_filter_simps indicator_value_def split: option.splits sum.splits)

lemma try_indicators_range:
  assumes "set ps \<subseteq> set variation_indicators"
  shows "0 \<le> try_indicators ps s \<and> try_indicators ps s \<le> 20"
  using assms
proof (induction ps)
  case Nil
  then show ?case by simp
next
  case (Cons p ps)
  show ?case
  proof (cases "indicator_value p s")
    case None
    then have "try_indicators (p # ps) s = try_indicators ps s"
      by (simp add: try_indicators_eq List.map_filter_simps)
    then show ?thesis using Cons by simp
  next
    case (Some n)
    then have "try_indicators (p # ps) s = min n 20"
      by (simp add: try_indicators_eq List.map_filter_simps)
    moreover have "p \<in> set variation_indicators" using Cons.prems by simp
    then have "0 \<le> n" using Some by (rule indicator_value_nonneg)
    ultimately show ?thesis by simp
  qed
qed

text \<open>
  C5, as stated, has the result at least 1. The captured number is only capped at 20; a
  text that says \<open>0 cores\<close> gives 0.
\<close>

theorem estimate_variations_zero:
  "estimate_variations_from_text (Some ''0 cores'') = 0"
  by code_simp

text \<open>
  C5, amended: for every text \<open>estimate_variations_from_text\<close> returns an integer from 0
  to 20. On an absent or empty text it returns 1. Otherwise it looks at the lower-cased text
  and goes through the four patterns in their order; the first one that matches
  and whose number \<open>int\<close> converts decides, and the result is that number capped at 20 (so 0
  when the number is 0); a pattern whose number does not convert is passed over like one
  that does not match; 1 is returned when no pattern is left.
\<close>

theorem estimate_variations_bounds:
  "0 \<le> estimate_variations_from_text t \<and> estimate_variations_from_text t \<le> 20
   \<and> estimate_variations_from_text t =
       (if falsy t then 1
        else (case List.map_filter (\<lambda>p. indicator_value p (lower (the t))) variation_indicators of
                [] \<Rightarrow> 1
              | n # ns \<Rightarrow> min n 20))
   \<and> estimate_variations_from_text (Some (''Dispon'' @ [CHR 0xED] @ ''vel em 5 cores'')) = 5
   \<and> estimate_variations_from_text (Some (''produto incr'' @ [CHR 0xED] @ ''vel'')) = 1
   \<and> estimate_variations_from_text (Some ''100 cores'') = 20"
proof (intro conjI)
  show "0 \<le> estimate_variations_from_text t" "estimate_variations_from_text t \<le> 20"
    using try_indicators_range [of variation_indicators]
    by (simp_all add: estimate_variations_from_text_def)
  show "estimate_variations_from_text t =
       (if falsy t then 1
        else (case List.map_filter (\<lambda>p. indicator_value p (lower (the t))) variation_indicators of
                [] \<Rightarrow> 1
              | n # ns \<Rightarrow> min n 20))"
    by (simp add: estimate_variations_from_text_def try_indicators_eq)
  show "estimate_variations_from_text (Some (''Dispon'' @ [CHR 0xED] @ ''vel em 5 cores'')) = 5"
    by code_simp
  show "estimate_variations_from_text (Some (''produto incr'' @ [CHR 0xED] @ ''vel'')) = 1"
    by code_simp
  show "estimate_variations_from_text (Some ''100 cores'') = 20"
    by code_simp
qed

section \<open>Properties of the date parser\<close>
















lemma is_digit_char_of: "k < 10 \<Longrightarrow> is_digit (char_of (48 + k :: nat))"
  by (simp add: is_digit_def Let_def)

lemma digits_of_digits: "list_all is_digit (digits_of n)"
proof (induction n rule: digits_of.induct)
  case (1 n)
  show ?case
  proof (cases "n < 10")
    case True
    then show ?thesis by (subst digits_of.simps) (simp add: is_digit_char_of)
  next
    case False
    then show ?thesis using 1 by (subst digits_of.simps) (simp add: is_digit_char_of)
  qed
qed

lemma digits_of_length_1: "n < 10 \<Longrightarrow> length (digits_of n) = 1"
  by (subst digits_of.simps) simp

lemma digits_of_length_2: "10 \<le> n \<Longrightarrow> n < 100 \<Longrightarrow> length (digits_of n) = 2"
  by (subst digits_of.simps) (simp add: digits_of_length_1)

lemma digits_of_length_3: "100 \<le> n \<Longrightarrow> n < 1000 \<Longrightarrow> length (digits_of n) = 3"
  by (subst digits_of.simps) (simp add: digits_of_length_2)

lemma digits_of_length_4: "1000 \<le> n \<Longrightarrow> n < 10000 \<Longrightarrow> length (digits_of n) = 4"
  by (subst digits_of.simps) (simp add: digits_of_length_3)

lemma digits_of_length_le_2: "n < 100 \<Longrightarrow> 1 \<le> length (digits_of n) \<and> length (digits_of n) \<le> 2"
  using digits_of_length_1 [of n] digits_of_length_2 [of n] by (cases "n < 10") simp_all

lemma days_in_month_le:
  assumes "1 \<le> m" "m \<le> 12"
  shows "days_in_month y m \<le> 31"
proof -
  have "m = 1 \<or> m = 2 \<or> m = 3 \<or> m = 4 \<or> m = 5 \<or> m = 6 \<or> m = 7 \<or> m = 8 \<or> m = 9
          \<or> m = 10 \<or> m = 11 \<or> m = 12"
    using assms by arith
  then show ?thesis by (auto simp: days_in_month_def)
qed









subsection \<open>Canonical date strings\<close>

lemma rx_match_Seq_hd:
  assumes "rx_match r1 s = (c1, s1) # ms1" "rx_match r2 s1 = (c2, s2) # ms2"
  shows "\<exists>ms. rx_match (Seq r1 r2) s = (c1 @ c2, s2) # ms"
  using assms by simp

lemma char_of_eq_iff: "n < 256 \<Longrightarrow> (char_of (n :: nat) = c) = (n = of_char c)"
proof
  assume "n < 256" "char_of n = c"
  then have "of_char (char_of n) = (of_char c :: nat)" by simp
  then show "n = of_char c" using \<open>n < 256\<close> by simp
next
  assume "n = of_char c"
  then show "char_of n = c" by simp
qed

lemma month_group_hd:
  assumes "1 \<le> m" "m \<le> 12"
  shows "\<exists>ms. rx_match month_group (zfill 2 (digits_of m) @ CHR ''-'' # rest)
           = ([zfill 2 (digits_of m)], CHR ''-'' # rest) # ms"
proof -
  have "m = 1 \<or> m = 2 \<or> m = 3 \<or> m = 4 \<or> m = 5 \<or> m = 6 \<or> m = 7 \<or> m = 8 \<or> m = 9
          \<or> m = 10 \<or> m = 11 \<or> m = 12"
    using assms by arith
  then show ?thesis
    by (elim disjE)
      (simp_all add: digits_of.simps zfill_def month_group_def startswith_def char_in_def
        char_of_eq_iff)
qed


lemma day_group_hd:
  assumes "1 \<le> d" "d \<le> 31"
  shows "\<exists>ms. rx_match day_group (zfill 2 (digits_of d)) = ([zfill 2 (digits_of d)], []) # ms"
proof -
  have "d = 1 \<or> d = 2 \<or> d = 3 \<or> d = 4 \<or> d = 5 \<or> d = 6 \<or> d = 7 \<or> d = 8 \<or> d = 9
          \<or> d = 10 \<or> d = 11 \<or> d = 12 \<or> d = 13 \<or> d = 14 \<or> d = 15 \<or> d = 16 \<or> d = 17
          \<or> d = 18 \<or> d = 19 \<or> d = 20 \<or> d = 21 \<or> d = 22 \<or> d = 23 \<or> d = 24 \<or> d = 25
          \<or> d = 26 \<or> d = 27 \<or> d = 28 \<or> d = 29 \<or> d = 30 \<or> d = 31"
    using assms by arith
  then show ?thesis
    by (elim disjE)
      (simp_all add: digits_of.simps zfill_def day_group_def startswith_def char_in_def
        is_digit_def char_of_eq_iff)
qed

lemma year_group_hd:
  assumes "length y = 4" "list_all is_digit y"
  shows "rx_match year_group (y @ rest) = [([y], rest)]"
proof -
  obtain a b c e where y: "y = [a, b, c, e]"
    using assms(1) by (auto simp: length_Suc_conv eval_nat_numeral)
  show ?thesis using assms(2) unfolding y by (simp add: year_group_def)
qed

lemma zfill_digits:
  assumes "list_all is_digit ds" "ds \<noteq> []" "length ds \<le> w"
  shows "zfill w ds = replicate (w - length ds) CHR ''0'' @ ds"
proof -
  have "is_digit (hd ds)" using assms by (cases ds) auto
  then have "hd ds \<noteq> CHR ''+''" "hd ds \<noteq> CHR ''-''"
    using is_digit_not_sign by blast+
  then show ?thesis using assms by (auto simp: zfill_def)
qed

lemma digits_of_nonempty: "digits_of n \<noteq> []"
  by (subst digits_of.simps) simp

lemma digits_of_length_le_4: "n < 10000 \<Longrightarrow> length (digits_of n) \<le> 4"
  using digits_of_length_1 [of n] digits_of_length_2 [of n] digits_of_length_3 [of n]
    digits_of_length_4 [of n]
  by (cases "n < 10"; cases "n < 100"; cases "n < 1000") simp_all

lemma zfill_digits_of:
  assumes "length (digits_of n) \<le> w"
  shows "length (zfill w (digits_of n)) = w" "list_all is_digit (zfill w (digits_of n))"
    "zfill w (digits_of n) \<noteq> []"
proof -
  have z: "is_digit CHR ''0''" by (simp add: is_digit_def)
  have e: "zfill w (digits_of n) = replicate (w - length (digits_of n)) CHR ''0'' @ digits_of n"
    using assms by (intro zfill_digits digits_of_digits digits_of_nonempty)
  show "length (zfill w (digits_of n)) = w" using assms by (simp add: e)
  show "list_all is_digit (zfill w (digits_of n))"
    using digits_of_digits [of n] z by (auto simp: e list_all_iff)
  show "zfill w (digits_of n) \<noteq> []" using digits_of_nonempty [of n] by (simp add: e)
qed

lemma digits_value_snoc:
  "digits_value (xs @ [c]) = 10 * digits_value xs + (int (of_char c) - 48)"
  by (simp add: digits_value_def)

lemma digits_value_digits_of: "digits_value (digits_of n) = int n"
proof (induction n rule: digits_of.induct)
  case (1 n)
  show ?case
  proof (cases "n < 10")
    case True
    then show ?thesis by (subst digits_of.simps) (simp add: digits_value_def)
  next
    case False
    then have "digits_value (digits_of (n div 10)) = int (n div 10)" using 1 by simp
    moreover have "int (of_char (char_of (48 + n mod 10))) - 48 = int (n mod 10)"
      by simp
    ultimately have "digits_value (digits_of (n div 10) @ [char_of (48 + n mod 10)]) = int n"
      unfolding digits_value_snoc by (simp add: zdiv_int zmod_int)
    then show ?thesis using False by (subst digits_of.simps) simp
  qed
qed

lemma digits_value_zeros: "digits_value (replicate k CHR ''0'' @ ds) = digits_value ds"
proof -
  have "foldl (\<lambda>acc c. 10 * acc + (int (of_char c) - 48)) 0 (replicate k CHR ''0'') = 0"
    by (induction k) simp_all
  then show ?thesis by (simp add: digits_value_def)
qed

lemma py_int_zfill_digits_of:
  assumes "length (digits_of n) \<le> w" "w \<le> 4"
  shows "py_int (zfill w (digits_of n)) = Inr (int n)"
proof -
  have "py_int (zfill w (digits_of n)) = Inr (digits_value (zfill w (digits_of n)))"
    using zfill_digits_of [OF assms(1)] assms(2)
    by (simp add: py_int_digits list_all_iff int_max_str_digits_def)
  also have "digits_value (zfill w (digits_of n)) = int n"
    using zfill_digits [OF digits_of_digits digits_of_nonempty assms(1)]
    by (simp add: digits_value_zeros digits_value_digits_of)
  finally show ?thesis .
qed

lemma strptime_ymd_canonical:
  assumes "valid_date d"
  shows "strptime_ymd (canonical_ymd d) = Inr d"
proof -
  define y where "y = nat (year d)"
  define m where "m = nat (month d)"
  define dd where "dd = nat (day d)"
  define Y where "Y = zfill 4 (digits_of y)"
  define M where "M = zfill 2 (digits_of m)"
  define D where "D = zfill 2 (digits_of dd)"
  have "day d \<le> 31"
    using assms days_in_month_le [of "month d" "year d"] by (simp add: valid_date_def)
  then have bounds: "y < 10000" "1 \<le> m" "m \<le> 12" "1 \<le> dd" "dd \<le> 31"
    and ints: "int y = year d" "int m = month d" "int dd = day d"
    using assms unfolding valid_date_def y_def m_def dd_def by linarith+
  have ly: "length (digits_of y) \<le> 4" using bounds by (simp add: digits_of_length_le_4)
  have lm: "length (digits_of m) \<le> 2"
    using digits_of_length_le_2 [of m] bounds by simp
  have ld: "length (digits_of dd) \<le> 2"
    using digits_of_length_le_2 [of dd] bounds by simp
  have s: "canonical_ymd d = Y @ CHR ''-'' # M @ CHR ''-'' # D"
    by (simp add: canonical_ymd_def Y_def M_def D_def y_def m_def dd_def)
  have 1: "rx_match year_group (Y @ CHR ''-'' # M @ CHR ''-'' # D)
             = ([Y], CHR ''-'' # M @ CHR ''-'' # D) # []"
    unfolding Y_def using zfill_digits_of [OF ly] by (intro year_group_hd) simp_all
  have 2: "rx_match (Lit ''-'') (CHR ''-'' # M @ CHR ''-'' # D) = ([], M @ CHR ''-'' # D) # []"
    by (simp add: startswith_def)
  obtain ms3 where 3: "rx_match month_group (M @ CHR ''-'' # D) = ([M], CHR ''-'' # D) # ms3"
    unfolding M_def using month_group_hd bounds by blast
  have 4: "rx_match (Lit ''-'') (CHR ''-'' # D) = ([], D) # []"
    by (simp add: startswith_def)
  obtain ms5 where 5: "rx_match day_group D = ([D], []) # ms5"
    unfolding D_def using day_group_hd bounds by blast
  obtain ms6 where 6: "rx_match (Seq (Lit ''-'') day_group) (CHR ''-'' # D) = ([] @ [D], []) # ms6"
    using rx_match_Seq_hd [OF 4 5] by blast
  obtain ms7 where 7: "rx_match (Seq month_group (Seq (Lit ''-'') day_group)) (M @ CHR ''-'' # D)
       = ([M] @ [] @ [D], []) # ms7"
    using rx_match_Seq_hd [OF 3 6] by blast
  obtain ms8 where 8: "rx_match month_day_format (CHR ''-'' # M @ CHR ''-'' # D)
       = ([] @ [M] @ [] @ [D], []) # ms8"
    unfolding month_day_format_def using rx_match_Seq_hd [OF 2 7] by blast
  obtain ms9 where 9: "rx_match ymd_format (Y @ CHR ''-'' # M @ CHR ''-'' # D)
       = ([Y] @ [] @ [M] @ [] @ [D], []) # ms9"
    unfolding ymd_format_def using rx_match_Seq_hd [OF 1 8] by blast
  have iy: "py_int Y = Inr (year d)"
    unfolding Y_def using py_int_zfill_digits_of [OF ly] ints by simp
  have im: "py_int M = Inr (month d)"
    unfolding M_def using py_int_zfill_digits_of [OF lm] ints by simp
  have id: "py_int D = Inr (day d)"
    unfolding D_def using py_int_zfill_digits_of [OF ld] ints by simp
  have "make_date (year d) (month d) (day d) = Inr d"
    using assms by (simp add: make_date_def)
  then show ?thesis
    unfolding s strptime_ymd_def 9 using iy im id by simp
qed


lemma make_date_valid: "make_date y m d = Inr x \<Longrightarrow> valid_date x"
  by (auto simp: make_date_def split: if_splits)

lemma strptime_ymd_valid:
  assumes "strptime_ymd s = Inr x"
  shows "valid_date x"
proof -
  obtain y m d where "make_date y m d = Inr x"
    using assms unfolding strptime_ymd_def
    by (auto split: list.splits prod.splits sum.splits if_splits)
  then show ?thesis by (rule make_date_valid)
qed

lemma iso_fuzzy_valid: "iso_fuzzy t = Some d \<Longrightarrow> valid_date d \<and> 1000 \<le> year d"
  by (auto simp: iso_fuzzy_def strptime_ymd_valid split: sum.splits if_splits)




lemma parse_date_any_short_year:
  "parse_date_any (\<lambda>t. Some (Date 999 1 1)) (Some ''0999-01-01'') = Some ''999-01-01''"
  by code_simp



section \<open>Properties of the day count\<close>

lemma days_between_nonneg: "0 \<le> days_between clock date_str today"
  by (simp add: days_between_def Let_def split: sum.splits)

text \<open>
  C6: \<open>days_between\<close> returns 0 on an absent or empty string and on a string that
  \<open>strptime\<close> refuses for the format \<open>%Y-%m-%d\<close>; on a string that parses it returns the
  number of days from the parsed date to the reference date, or 0 when that number is
  negative; the canonical string \<open>YYYY-MM-DD\<close> of every date of the calendar parses, to
  that date; the result is never negative. With the reference date 2025-01-10 the string
  \<open>2025-01-01\<close> gives 9 and \<open>2099-01-01\<close> gives 0, whatever the clock says.
\<close>

theorem days_between_reference:
  "days_between clock None today = 0
   \<and> days_between clock (Some []) today = 0
   \<and> (strptime_ymd s = Inl e \<longrightarrow> days_between clock (Some s) today = 0)
   \<and> (strptime_ymd s = Inr d \<longrightarrow>
        days_between clock (Some s) (Some reference) = max 0 (toordinal reference - toordinal d))
   \<and> (valid_date d' \<longrightarrow>
        strptime_ymd (canonical_ymd d') = Inr d'
        \<and> days_between clock (Some (canonical_ymd d')) (Some reference)
            = max 0 (toordinal reference - toordinal d'))
   \<and> 0 \<le> days_between clock date_str today
   \<and> days_between clock (Some ''2025-01-01'') (Some (Date 2025 1 10)) = 9
   \<and> days_between clock (Some ''2099-01-01'') (Some (Date 2025 1 10)) = 0"
proof (intro conjI impI)
  show "days_between clock None today = 0" "days_between clock (Some []) today = 0"
    by (simp_all add: days_between_def)
  show "days_between clock (Some s) today = 0" if "strptime_ymd s = Inl e"
    using that by (simp add: days_between_def Let_def)
  show "days_between clock (Some s) (Some reference) = max 0 (toordinal reference - toordinal d)"
    if "strptime_ymd s = Inr d"
  proof (cases "s = []")
    case True
    have "strptime_ymd [] = Inl ValueError" by code_simp
    then show ?thesis using that True by simp
  next
    case False
    then show ?thesis using that by (simp add: days_between_def)
  qed
  show "strptime_ymd (canonical_ymd d') = Inr d'" if "valid_date d'"
    using that by (rule strptime_ymd_canonical)
  show "days_between clock (Some (canonical_ymd d')) (Some reference)
            = max 0 (toordinal reference - toordinal d')" if "valid_date d'"
  proof -
    have "canonical_ymd d' \<noteq> []" by (simp add: canonical_ymd_def)
    then show ?thesis
      using strptime_ymd_canonical [OF that] by (simp add: days_between_def)
  qed
  show "0 \<le> days_between clock date_str today" by (rule days_between_nonneg)
  show "days_between clock (Some ''2025-01-01'') (Some (Date 2025 1 10)) = 9" by code_simp
  show "days_between clock (Some ''2099-01-01'') (Some (Date 2025 1 10)) = 0" by code_simp
qed

theorem days_between_reference_witness:
  "strptime_ymd ''2024-02-29'' = Inr (Date 2024 2 29)
   \<and> days_between (Date 2030 1 1) (Some ''2024-02-29'') (Some (Date 2024 3 1)) = 1
   \<and> strptime_ymd ''2025-02-29'' = Inl ValueError
   \<and> days_between (Date 2030 1 1) (Some ''2025-02-29'') (Some (Date 2025 3 1)) = 0
   \<and> days_between (Date 2030 1 1) (Some (canonical_ymd (Date 2024 2 29)))
         (Some (Date 2024 3 1)) = 1"
proof -
  have p: "strptime_ymd ''2024-02-29'' = Inr (Date 2024 2 29)" by code_simp
  have q: "strptime_ymd ''2025-02-29'' = Inl ValueError" by code_simp
  have o: "max 0 (toordinal (Date 2024 3 1) - toordinal (Date 2024 2 29)) = 1" by code_simp
  have v: "valid_date (Date 2024 2 29)" by code_simp
  show ?thesis
    using days_between_reference [where clock = "Date 2030 1 1"
        and today = "Some (Date 2024 3 1)" and s = "''2024-02-29''" and e = ValueError
        and d = "Date 2024 2 29" and reference = "Date 2024 3 1" and d' = "Date 2024 2 29"]
      days_between_reference [where clock = "Date 2030 1 1"
        and today = "Some (Date 2025 3 1)" and s = "''2025-02-29''" and e = ValueError
        and d = "Date 2024 2 29" and reference = "Date 2024 3 1" and d' = "Date 2024 2 29"]
      p q o v by simp
qed

end
